theory Spec2Isabelle
  imports Complex_Main
begin

section \<open>Arrays\<close>

text \<open>
  A numpy array is modelled by its element type, its shape and its elements in row-major
  (C) order.  An element of a floating array may be NaN or an infinity.  Arithmetic on
  the elements is exact real arithmetic, but for two places where the arithmetic of the
  element type decides what the program does: the sum \<open>vmin + 1\<close> of \<open>auto_scale\<close>
  is computed in the element type of the array (\<open>scalar_add_one\<close>), and whether
  \<open>np.histogram\<close> can lay out its bins in floating point is left to the library
  (\<open>histogram_error\<close>).  The byte order of an element type is not part of the model.
\<close>

datatype sample = Finite real | NaN | PosInf | NegInf

datatype dtype = Int8 | Int16 | Int32 | Int64 | UInt8 | UInt16 | UInt32 | UInt64
  | Float32 | Float64

record 'a ndarray =
  dtype :: dtype
  shape :: "nat list"
  elems :: "'a list"

datatype py_error = IndexError | ValueError | TypeError | AxisError | LibraryError

text \<open>
  A method that may raise returns an outcome: it either returns, or raises with the
  object left in the state it had reached.
\<close>

datatype 's outcome = Returned 's | Raised py_error 's

fun state_of :: "'s outcome \<Rightarrow> 's" where
  "state_of (Returned s) = s"
| "state_of (Raised e s) = s"

definition ndim :: "'a ndarray \<Rightarrow> nat" where
  "ndim a = length (shape a)"

definition well_shaped :: "'a ndarray \<Rightarrow> bool" where
  "well_shaped a = (length (elems a) = prod_list (shape a))"

text \<open>\<open>str(data.dtype)\<close>.\<close>

fun dtype_name :: "dtype \<Rightarrow> string" where
  "dtype_name Int8 = ''int8''"
| "dtype_name Int16 = ''int16''"
| "dtype_name Int32 = ''int32''"
| "dtype_name Int64 = ''int64''"
| "dtype_name UInt8 = ''uint8''"
| "dtype_name UInt16 = ''uint16''"
| "dtype_name UInt32 = ''uint32''"
| "dtype_name UInt64 = ''uint64''"
| "dtype_name Float32 = ''float32''"
| "dtype_name Float64 = ''float64''"

subsection \<open>Indexing\<close>

text \<open>The offset of a multi-index in row-major order, and the multi-indices of a shape.\<close>

fun flat_index :: "nat list \<Rightarrow> nat list \<Rightarrow> nat" where
  "flat_index (n # ns) (i # js) = i * prod_list ns + flat_index ns js"
| "flat_index _ _ = 0"

fun valid_index :: "nat list \<Rightarrow> nat list \<Rightarrow> bool" where
  "valid_index [] [] = True"
| "valid_index (n # ns) (i # js) = (i < n \<and> valid_index ns js)"
| "valid_index _ _ = False"

definition nd_get :: "'a ndarray \<Rightarrow> nat list \<Rightarrow> 'a" where
  "nd_get a idx = elems a ! flat_index (shape a) idx"

text \<open>\<open>data[i]\<close>: one integer index on the first axis.\<close>

definition index_axis0 :: "'a ndarray \<Rightarrow> nat \<Rightarrow> py_error + 'a ndarray" where
  "index_axis0 a i =
     (case shape a of
        [] \<Rightarrow> Inl IndexError
      | n # ns \<Rightarrow>
          if i < n
          then Inr (a\<lparr>shape := ns, elems := take (prod_list ns) (drop (i * prod_list ns) (elems a))\<rparr>)
          else Inl IndexError)"

text \<open>\<open>data[tuple(indices)]\<close>: integer indices on the leading axes.\<close>

fun index_leading :: "'a ndarray \<Rightarrow> nat list \<Rightarrow> py_error + 'a ndarray" where
  "index_leading a [] = Inr a"
| "index_leading a (i # js) =
     (case index_axis0 a i of Inl e \<Rightarrow> Inl e | Inr b \<Rightarrow> index_leading b js)"

text \<open>\<open>np.transpose(data, (1, 2, 0))\<close>.\<close>

definition transpose_120 :: "'a ndarray \<Rightarrow> py_error + 'a ndarray" where
  "transpose_120 a =
     (case shape a of
        [c, h, w] \<Rightarrow>
          Inr (a\<lparr>shape := [h, w, c],
                 elems := concat (map (\<lambda>i. concat (map (\<lambda>j. map (\<lambda>k. elems a ! ((k * h + i) * w + j))
                            [0..<c]) [0..<w])) [0..<h])\<rparr>)
      | _ \<Rightarrow> Inl ValueError)"

text \<open>\<open>data[:, :, i]\<close> of an array whose last axis has length 3, and its inverse.\<close>

definition channel_last :: "nat \<Rightarrow> 'a ndarray \<Rightarrow> 'a ndarray" where
  "channel_last i a =
     a\<lparr>shape := butlast (shape a),
       elems := map (\<lambda>k. elems a ! (k * 3 + i)) [0..<length (elems a) div 3]\<rparr>"

definition interleave3 :: "'a list \<Rightarrow> 'a list \<Rightarrow> 'a list \<Rightarrow> 'a list" where
  "interleave3 r g b = concat (map (\<lambda>k. [r ! k, g ! k, b ! k]) [0..<length r])"

text \<open>Consecutive pieces of length \<open>n\<close>.\<close>

function chunks :: "nat \<Rightarrow> 'a list \<Rightarrow> 'a list list" where
  "chunks n xs = (if n = 0 \<or> xs = [] then [] else take n xs # chunks n (drop n xs))"
  by pat_completeness auto
termination
  by (relation "measure (\<lambda>(n, xs). length xs)") auto

declare chunks.simps [simp del]

text \<open>\<open>np.flip(data, axis=-1)\<close> and \<open>np.flip(data, axis=-2)\<close>.\<close>

definition np_flip_last :: "'a ndarray \<Rightarrow> py_error + 'a ndarray" where
  "np_flip_last a =
     (if ndim a < 1 then Inl AxisError
      else Inr (a\<lparr>elems := concat (map rev (chunks (last (shape a)) (elems a)))\<rparr>))"

definition np_flip_second_last :: "'a ndarray \<Rightarrow> py_error + 'a ndarray" where
  "np_flip_second_last a =
     (if ndim a < 2 then Inl AxisError
      else let w = last (shape a); hh = shape a ! (ndim a - 2)
           in Inr (a\<lparr>elems := concat (map (\<lambda>blk. concat (rev (chunks w blk)))
                                      (chunks (hh * w) (elems a)))\<rparr>))"

subsection \<open>Element arithmetic\<close>

text \<open>\<open>data[np.isfinite(data)]\<close>: the finite elements, in order.\<close>

fun finite_vals :: "sample list \<Rightarrow> real list" where
  "finite_vals [] = []"
| "finite_vals (Finite v # xs) = v # finite_vals xs"
| "finite_vals (_ # xs) = finite_vals xs"

text \<open>IEEE arithmetic on the special values (signed zeros are not distinguished).\<close>

fun s_neg :: "sample \<Rightarrow> sample" where
  "s_neg (Finite a) = Finite (- a)"
| "s_neg NaN = NaN"
| "s_neg PosInf = NegInf"
| "s_neg NegInf = PosInf"

fun s_add :: "sample \<Rightarrow> sample \<Rightarrow> sample" where
  "s_add (Finite a) (Finite b) = Finite (a + b)"
| "s_add NaN _ = NaN"
| "s_add _ NaN = NaN"
| "s_add PosInf NegInf = NaN"
| "s_add NegInf PosInf = NaN"
| "s_add PosInf _ = PosInf"
| "s_add _ PosInf = PosInf"
| "s_add NegInf _ = NegInf"
| "s_add _ NegInf = NegInf"

definition s_sub :: "sample \<Rightarrow> sample \<Rightarrow> sample" where
  "s_sub a b = s_add a (s_neg b)"

fun s_div :: "sample \<Rightarrow> sample \<Rightarrow> sample" where
  "s_div (Finite a) (Finite b) =
     (if b = 0 then (if a = 0 then NaN else if 0 < a then PosInf else NegInf)
      else Finite (a / b))"
| "s_div NaN _ = NaN"
| "s_div _ NaN = NaN"
| "s_div (Finite a) _ = Finite 0"
| "s_div PosInf (Finite b) = (if 0 \<le> b then PosInf else NegInf)"
| "s_div NegInf (Finite b) = (if 0 \<le> b then NegInf else PosInf)"
| "s_div _ _ = NaN"

fun s_less :: "sample \<Rightarrow> sample \<Rightarrow> bool" where
  "s_less (Finite a) (Finite b) = (a < b)"
| "s_less NaN _ = False"
| "s_less _ NaN = False"
| "s_less NegInf NegInf = False"
| "s_less NegInf _ = True"
| "s_less _ NegInf = False"
| "s_less PosInf _ = False"
| "s_less _ PosInf = True"

text \<open>\<open>a.min()\<close> and \<open>a.max()\<close>: NaN propagates; an empty array raises.\<close>

definition s_min2 :: "sample \<Rightarrow> sample \<Rightarrow> sample" where
  "s_min2 a b = (if a = NaN \<or> b = NaN then NaN else if s_less a b then a else b)"

definition s_max2 :: "sample \<Rightarrow> sample \<Rightarrow> sample" where
  "s_max2 a b = (if a = NaN \<or> b = NaN then NaN else if s_less a b then b else a)"

definition np_min :: "sample list \<Rightarrow> py_error + sample" where
  "np_min xs = (case xs of [] \<Rightarrow> Inl ValueError | x # r \<Rightarrow> Inr (fold s_min2 r x))"

definition np_max :: "sample list \<Rightarrow> py_error + sample" where
  "np_max xs = (case xs of [] \<Rightarrow> Inl ValueError | x # r \<Rightarrow> Inr (fold s_max2 r x))"

text \<open>
  \<open>np.clip(a, lo, hi)\<close> is \<open>minimum(maximum(a, lo), hi)\<close>; a bound may be \<open>None\<close>,
  but not both (numpy before 2.1 raises ValueError).
\<close>

fun clip_lo :: "real option \<Rightarrow> sample \<Rightarrow> sample" where
  "clip_lo None x = x"
| "clip_lo (Some l) (Finite v) = Finite (max v l)"
| "clip_lo (Some l) NaN = NaN"
| "clip_lo (Some l) PosInf = PosInf"
| "clip_lo (Some l) NegInf = Finite l"

fun clip_hi :: "real option \<Rightarrow> sample \<Rightarrow> sample" where
  "clip_hi None x = x"
| "clip_hi (Some u) (Finite v) = Finite (min v u)"
| "clip_hi (Some u) NaN = NaN"
| "clip_hi (Some u) PosInf = Finite u"
| "clip_hi (Some u) NegInf = NegInf"

definition np_clip :: "sample list \<Rightarrow> real option \<Rightarrow> real option \<Rightarrow> py_error + sample list" where
  "np_clip xs lo hi =
     (if lo = None \<and> hi = None then Inl ValueError
      else Inr (map (\<lambda>x. clip_hi hi (clip_lo lo x)) xs))"

fun np_log10 :: "sample \<Rightarrow> sample" where
  "np_log10 (Finite x) = (if 0 < x then Finite (log 10 x) else if x = 0 then NegInf else NaN)"
| "np_log10 NaN = NaN"
| "np_log10 PosInf = PosInf"
| "np_log10 NegInf = NaN"

text \<open>\<open>np.sqrt(np.abs(x))\<close>.\<close>

fun np_sqrt_abs :: "sample \<Rightarrow> sample" where
  "np_sqrt_abs (Finite x) = Finite (sqrt \<bar>x\<bar>)"
| "np_sqrt_abs NaN = NaN"
| "np_sqrt_abs PosInf = PosInf"
| "np_sqrt_abs NegInf = PosInf"

fun np_arcsinh :: "sample \<Rightarrow> sample" where
  "np_arcsinh (Finite x) = Finite (arsinh x)"
| "np_arcsinh NaN = NaN"
| "np_arcsinh PosInf = PosInf"
| "np_arcsinh NegInf = NegInf"

subsection \<open>Element types\<close>

fun is_integer :: "dtype \<Rightarrow> bool" where
  "is_integer Float32 = False"
| "is_integer Float64 = False"
| "is_integer _ = True"

fun is_signed :: "dtype \<Rightarrow> bool" where
  "is_signed UInt8 = False"
| "is_signed UInt16 = False"
| "is_signed UInt32 = False"
| "is_signed UInt64 = False"
| "is_signed _ = True"

fun dbits :: "dtype \<Rightarrow> nat" where
  "dbits Int8 = 8"
| "dbits UInt8 = 8"
| "dbits Int16 = 16"
| "dbits UInt16 = 16"
| "dbits Int32 = 32"
| "dbits UInt32 = 32"
| "dbits Float32 = 32"
| "dbits _ = 64"

text \<open>\<open>np.iinfo(dt).min\<close> and \<open>np.iinfo(dt).max\<close> of an integer type.\<close>

definition iinfo_min :: "dtype \<Rightarrow> int" where
  "iinfo_min dt = (if is_signed dt then - (2 ^ (dbits dt - 1)) else 0)"

definition iinfo_max :: "dtype \<Rightarrow> int" where
  "iinfo_max dt = (if is_signed dt then 2 ^ (dbits dt - 1) - 1 else 2 ^ dbits dt - 1)"

text \<open>An element that an array of the given type can hold.\<close>

definition in_dtype :: "dtype \<Rightarrow> sample \<Rightarrow> bool" where
  "in_dtype dt s =
     (if is_integer dt
      then (case s of
              Finite v \<Rightarrow> v = of_int \<lfloor>v\<rfloor> \<and> iinfo_min dt \<le> \<lfloor>v\<rfloor> \<and> \<lfloor>v\<rfloor> \<le> iinfo_max dt
            | _ \<Rightarrow> False)
      else True)"

definition well_typed :: "sample ndarray \<Rightarrow> bool" where
  "well_typed a = list_all (in_dtype (dtype a)) (elems a)"

text \<open>Conversion of a float to an integer rounds toward zero.\<close>

definition py_trunc :: "real \<Rightarrow> int" where
  "py_trunc x = (if 0 \<le> x then \<lfloor>x\<rfloor> else \<lceil>x\<rceil>)"

definition wrap_int :: "dtype \<Rightarrow> int \<Rightarrow> int" where
  "wrap_int dt i =
     (if is_signed dt then (i + 2 ^ (dbits dt - 1)) mod 2 ^ dbits dt - 2 ^ (dbits dt - 1)
      else i mod 2 ^ dbits dt)"

text \<open>
  \<open>np.result_type\<close> of two element types, as \<open>np.array\<close> of a list of arrays
  computes it.
\<close>

fun signed_of_bits :: "nat \<Rightarrow> dtype" where
  "signed_of_bits n = (if n \<le> 8 then Int8 else if n \<le> 16 then Int16 else if n \<le> 32 then Int32 else Int64)"

definition promote :: "dtype \<Rightarrow> dtype \<Rightarrow> dtype" where
  "promote a b =
     (if a = b then a
      else if a = Float64 \<or> b = Float64 then Float64
      else if a = Float32 then (if dbits b \<le> 16 then Float32 else Float64)
      else if b = Float32 then (if dbits a \<le> 16 then Float32 else Float64)
      else if is_signed a = is_signed b then (if dbits b \<le> dbits a then a else b)
      else (let s = (if is_signed a then a else b); u = (if is_signed a then b else a)
            in if dbits u < dbits s then s
               else if dbits u = 64 then Float64
               else signed_of_bits (2 * dbits u)))"

subsection \<open>Scalars of an element type\<close>

text \<open>
  A floating type holds the numbers with \<open>mant_bits\<close> binary digits and a binary
  exponent from \<open>min_exp\<close> to \<open>max_exp\<close> (IEEE 754 binary32 and binary64).
  \<open>round_to_float\<close> rounds a real number to the nearest such number, a tie to the one
  with an even last digit, as the arithmetic of the processor does; \<open>float_round\<close>
  adds the overflow to an infinity.  An integer is converted to binary64.
\<close>

fun mant_bits :: "dtype \<Rightarrow> nat" where
  "mant_bits Float32 = 24"
| "mant_bits _ = 53"

fun min_exp :: "dtype \<Rightarrow> int" where
  "min_exp Float32 = - 126"
| "min_exp _ = - 1022"

fun max_exp :: "dtype \<Rightarrow> nat" where
  "max_exp Float32 = 127"
| "max_exp _ = 1023"

definition round_half_even :: "real \<Rightarrow> int" where
  "round_half_even x =
     (let f = \<lfloor>x\<rfloor> in
      if x - of_int f < 1 / 2 then f
      else if 1 / 2 < x - of_int f then f + 1
      else if even f then f else f + 1)"

definition round_to_float :: "dtype \<Rightarrow> real \<Rightarrow> real" where
  "round_to_float t x =
     (if x = 0 then 0
      else let e = max \<lfloor>log 2 \<bar>x\<bar>\<rfloor> (min_exp t);
               ulp = 2 powi (e - int (mant_bits t) + 1)
           in of_int (round_half_even (x / ulp)) * ulp)"

definition float_round :: "dtype \<Rightarrow> real \<Rightarrow> sample" where
  "float_round t x =
     (let y = round_to_float t x in
      if 2 ^ (max_exp t + 1) \<le> \<bar>y\<bar> then (if 0 < x then PosInf else NegInf) else Finite y)"

text \<open>
  \<open>v + 1\<close> for a numpy scalar \<open>v\<close> of the given element type.  The Python integer 1
  takes the type of the scalar (numpy 2): the sum of an integer type wraps around, with a
  warning, and the sum of a floating type is rounded to that type.  (The rounded sum
  is finite: a finite float plus one never reaches an infinity.)
\<close>

definition scalar_add_one :: "dtype \<Rightarrow> real \<Rightarrow> real" where
  "scalar_add_one t v =
     (if is_integer t then of_int (wrap_int t (\<lfloor>v\<rfloor> + 1)) else round_to_float t (v + 1))"

text \<open>
  \<open>float(v)\<close> for a numpy scalar of the given element type: an integer is converted to
  binary64, a float keeps its value.
\<close>

definition py_float :: "dtype \<Rightarrow> real \<Rightarrow> real" where
  "py_float t v = (if is_integer t then round_to_float Float64 v else v)"

section \<open>The store of array objects\<close>

text \<open>
  Attributes hold references to array objects.  The store maps a reference to the array
  it denotes; \<open>next_ref\<close> is the first unused reference.  An array is entered into the
  store when an attribute comes to hold it; arrays local to one call are values.
\<close>

type_synonym ref = nat

record store =
  cells :: "ref \<Rightarrow> sample ndarray"
  next_ref :: ref

definition alloc :: "sample ndarray \<Rightarrow> store \<Rightarrow> ref \<times> store" where
  "alloc a h = (next_ref h, h\<lparr>cells := (cells h)(next_ref h := a), next_ref := Suc (next_ref h)\<rparr>)"

section \<open>Libraries outside the repository\<close>

text \<open>
  \<open>nd_rotate a angle\<close> is \<open>scipy.ndimage.rotate(a, angle, reshape=True, order=1,
  mode='constant', cval=0, prefilter=False)\<close>, which may raise.  \<open>render\<close> stands for the
  matplotlib calls that draw a scaled image (\<open>imshow\<close>, \<open>set_title\<close>,
  \<open>tight_layout\<close>, \<open>draw_idle\<close>) and returns the exception they raise, if any.
  \<open>undef_cast\<close> is the integer that \<open>astype\<close> produces for an element that the
  integer type cannot represent (a NaN, an infinity, a value out of range), which the
  platform decides.  \<open>np.histogram\<close> lays out its bins in floating point and raises
  when it cannot: when the range of the data overflows the floating type, or when two
  neighbouring bin edges come out equal.  \<open>histogram_error\<close> is the exception it raises
  for data of the given element type and the given number of bins, if any.
\<close>

record env =
  nd_rotate :: "sample ndarray \<Rightarrow> int \<Rightarrow> py_error + sample ndarray"
  render :: "sample ndarray \<Rightarrow> py_error option"
  undef_cast :: "dtype \<Rightarrow> sample \<Rightarrow> int"
  histogram_error :: "dtype \<Rightarrow> real list \<Rightarrow> int \<Rightarrow> py_error option"

text \<open>\<open>data.astype(dt)\<close>.\<close>

definition astype_val :: "env \<Rightarrow> dtype \<Rightarrow> sample \<Rightarrow> sample" where
  "astype_val ev dt s =
     (if is_integer dt
      then Finite (of_int
             (case s of
                Finite v \<Rightarrow>
                  if iinfo_min dt \<le> py_trunc v \<and> py_trunc v \<le> iinfo_max dt then py_trunc v
                  else wrap_int dt (undef_cast ev dt s)
              | _ \<Rightarrow> wrap_int dt (undef_cast ev dt s)))
      else s)"

definition astype :: "env \<Rightarrow> dtype \<Rightarrow> sample ndarray \<Rightarrow> sample ndarray" where
  "astype ev dt a = a\<lparr>dtype := dt, elems := map (astype_val ev dt) (elems a)\<rparr>"

text \<open>\<open>np.array([r0, r1, r2])\<close>: three arrays of one shape, stacked on a new first axis.\<close>

definition np_array3 ::
  "sample ndarray \<Rightarrow> sample ndarray \<Rightarrow> sample ndarray \<Rightarrow> py_error + sample ndarray" where
  "np_array3 r0 r1 r2 =
     (if shape r0 = shape r1 \<and> shape r1 = shape r2
      then Inr \<lparr>dtype = promote (promote (dtype r0) (dtype r1)) (dtype r2),
                shape = 3 # shape r0,
                elems = elems r0 @ elems r1 @ elems r2\<rparr>
      else Inl ValueError)"


section \<open>ImageDisplayEngine\<close>

record engine =
  current_data :: "ref option"
  vmin :: "real option"
  vmax :: "real option"
  scaling_mode :: string
  colormap :: string

text \<open>
  \<open>_prepare_data_for_display\<close>: the branches on the rank of \<open>data\<close>, and the
  method, which reads \<open>data\<close> from \<open>self.current_data\<close>.
\<close>

definition reduce_for_display :: "'a ndarray \<Rightarrow> py_error + 'a ndarray option" where
  "reduce_for_display data =
     (if ndim data = 1 then Inr None
      else if ndim data = 2 then Inr (Some data)
      else if ndim data = 3 then
        (if shape data ! 0 = 3 then map_sum id Some (transpose_120 data)
         else map_sum id Some (index_axis0 data (shape data ! 0 div 2)))
      else map_sum id Some
             (index_leading data (map (\<lambda>i. shape data ! i div 2) [0..<ndim data - 2])))"

definition prepare_data_for_display :: "store \<Rightarrow> engine \<Rightarrow> py_error + sample ndarray option" where
  "prepare_data_for_display h eng =
     (case current_data eng of
        None \<Rightarrow> Inr None
      | Some r \<Rightarrow> reduce_for_display (cells h r))"

text \<open>
  The element type of the result of float arithmetic on an array: float32 stays,
  everything else becomes float64.
\<close>

definition float_result :: "dtype \<Rightarrow> dtype" where
  "float_result dt = (if dt = Float32 then Float32 else Float64)"

definition scaled_like :: "sample ndarray \<Rightarrow> sample list \<Rightarrow> sample ndarray" where
  "scaled_like data es = \<lparr>dtype = float_result (dtype data), shape = shape data, elems = es\<rparr>"

text \<open>
  The linear branch of \<open>_apply_scaling_to_channel\<close>, which the source writes twice
  (for \<open>'linear'\<close> and for an unrecognised mode).  Comparing or subtracting an unset
  bound raises TypeError.
\<close>

definition linear_scale :: "engine \<Rightarrow> sample ndarray \<Rightarrow> sample list \<Rightarrow> py_error + sample ndarray" where
  "linear_scale eng data clipped =
     (case (vmin eng, vmax eng) of
        (Some lo, Some hi) \<Rightarrow>
          if hi > lo
          then Inr (scaled_like data
                 (map (\<lambda>x. s_div (s_sub x (Finite lo)) (Finite (hi - lo))) clipped))
          else Inr (scaled_like data clipped)
      | _ \<Rightarrow> Inl TypeError)"

text \<open>
  The normalisation by the scaled array's own minimum and maximum, which the source
  writes three times (for \<open>'log'\<close>, \<open>'sqrt'\<close> and \<open>'asinh'\<close>).
\<close>

definition normalize_min_max :: "sample ndarray \<Rightarrow> sample list \<Rightarrow> py_error + sample ndarray" where
  "normalize_min_max data scaled =
     (case np_min scaled of
        Inl e \<Rightarrow> Inl e
      | Inr scaled_min \<Rightarrow>
          (case np_max scaled of
             Inl e \<Rightarrow> Inl e
           | Inr scaled_max \<Rightarrow>
               if s_less scaled_min scaled_max
               then Inr (scaled_like data
                      (map (\<lambda>x. s_div (s_sub x scaled_min) (s_sub scaled_max scaled_min)) scaled))
               else Inr (scaled_like data scaled)))"

text \<open>\<open>_apply_scaling_to_channel\<close>.\<close>

definition apply_scaling_to_channel :: "engine \<Rightarrow> sample ndarray \<Rightarrow> py_error + sample ndarray" where
  "apply_scaling_to_channel eng data =
     (case np_clip (elems data) (vmin eng) (vmax eng) of
        Inl e \<Rightarrow> Inl e
      | Inr clipped \<Rightarrow>
          if scaling_mode eng = ''linear'' then linear_scale eng data clipped
          else if scaling_mode eng = ''log'' then
            (case vmin eng of
               None \<Rightarrow> Inl TypeError
             | Some lo \<Rightarrow>
                 normalize_min_max data
                   (map (\<lambda>x. np_log10 (s_add (s_sub x (Finite lo)) (Finite 1))) clipped))
          else if scaling_mode eng = ''sqrt'' then
            (case vmin eng of
               None \<Rightarrow> Inl TypeError
             | Some lo \<Rightarrow>
                 normalize_min_max data (map (\<lambda>x. np_sqrt_abs (s_sub x (Finite lo))) clipped))
          else if scaling_mode eng = ''asinh'' then
            normalize_min_max data (map np_arcsinh clipped)
          else linear_scale eng data clipped)"

text \<open>\<open>_apply_scaling\<close>, for an array that is not \<open>None\<close>.\<close>

definition apply_scaling :: "engine \<Rightarrow> sample ndarray \<Rightarrow> py_error + sample ndarray" where
  "apply_scaling eng data =
     (if ndim data = 3 \<and> shape data ! 2 = 3 then
        (case apply_scaling_to_channel eng ((channel_last 0 data)\<lparr>dtype := Float32\<rparr>) of
           Inl e \<Rightarrow> Inl e
         | Inr r \<Rightarrow>
        (case apply_scaling_to_channel eng ((channel_last 1 data)\<lparr>dtype := Float32\<rparr>) of
           Inl e \<Rightarrow> Inl e
         | Inr g \<Rightarrow>
        (case apply_scaling_to_channel eng ((channel_last 2 data)\<lparr>dtype := Float32\<rparr>) of
           Inl e \<Rightarrow> Inl e
         | Inr b \<Rightarrow>
             Inr \<lparr>dtype = Float32, shape = shape data,
                  elems = interleave3 (elems r) (elems g) (elems b)\<rparr>)))
      else apply_scaling_to_channel eng data)"

text \<open>
  \<open>np.percentile(a, q)\<close> of a one-dimensional array, with the default linear
  interpolation between the two nearest ranks.  It is used on non-empty arrays only; on
  an empty array numpy returns NaN, for which the real-valued result has no
  representation, and the definition raises instead.
\<close>

definition np_percentile :: "real list \<Rightarrow> real \<Rightarrow> py_error + real" where
  "np_percentile a q =
     (if q < 0 \<or> 100 < q \<or> a = [] then Inl ValueError
      else let srt = sort a;
               n = length a;
               virtual_index = q / 100 * (real n - 1);
               previous_index = nat \<lfloor>virtual_index\<rfloor>;
               next_index = min (previous_index + 1) (n - 1);
               gamma = virtual_index - real previous_index
           in Inr (srt ! previous_index + (srt ! next_index - srt ! previous_index) * gamma))"

text \<open>
  The percentiles are binary64 numbers; \<open>valid_data.min()\<close> and \<open>valid_data.max()\<close>
  are scalars of the element type of the array, and so is \<open>vmin + 1\<close>.
\<close>

definition auto_scale :: "store \<Rightarrow> engine \<Rightarrow> real \<Rightarrow> real \<Rightarrow> py_error + real \<times> real" where
  "auto_scale h eng percentile_low percentile_high =
     (case current_data eng of
        None \<Rightarrow> Inr (0, 1)
      | Some r \<Rightarrow>
          let valid_data = finite_vals (elems (cells h r));
              t = dtype (cells h r) in
          if length valid_data = 0 then Inr (0, 1)
          else
            (case np_percentile valid_data percentile_low of
               Inl e \<Rightarrow> Inl e
             | Inr lo \<Rightarrow>
            (case np_percentile valid_data percentile_high of
               Inl e \<Rightarrow> Inl e
             | Inr hi \<Rightarrow>
                 if lo \<ge> hi then
                   (let lo' = Min (set valid_data); hi' = Max (set valid_data)
                    in if lo' \<ge> hi' then Inr (py_float t lo', py_float t (scalar_add_one t lo'))
                       else Inr (py_float t lo', py_float t hi'))
                 else Inr (lo, hi))))"

text \<open>
  \<open>update_display\<close> changes the figure only; the model keeps what it raises.  Clearing
  the axes and removing the colour bar are taken not to raise.
\<close>

definition update_display :: "env \<Rightarrow> store \<Rightarrow> engine \<Rightarrow> py_error option" where
  "update_display ev h eng =
     (if current_data eng = None then None
      else
        (case prepare_data_for_display h eng of
           Inl e \<Rightarrow> Some e
         | Inr None \<Rightarrow> None
         | Inr (Some display_data) \<Rightarrow>
             (case apply_scaling eng display_data of
                Inl e \<Rightarrow> Some e
              | Inr scaled_data \<Rightarrow> render ev scaled_data)))"

definition set_data :: "env \<Rightarrow> store \<Rightarrow> ref option \<Rightarrow> engine \<Rightarrow> engine outcome" where
  "set_data ev h data eng =
     (case data of
        None \<Rightarrow> Returned eng
      | Some r \<Rightarrow>
          let e1 = eng\<lparr>current_data := Some r\<rparr> in
          (case auto_scale h e1 0.5 99.5 of
             Inl e \<Rightarrow> Raised e e1
           | Inr (lo, hi) \<Rightarrow>
               let e2 = e1\<lparr>vmin := Some lo, vmax := Some hi\<rparr> in
               (case update_display ev h e2 of
                  Some e \<Rightarrow> Raised e e2
                | None \<Rightarrow> Returned e2)))"

definition set_scaling_limits :: "env \<Rightarrow> store \<Rightarrow> real \<Rightarrow> real \<Rightarrow> engine \<Rightarrow> engine outcome" where
  "set_scaling_limits ev h lo hi eng =
     (if lo < hi then
        (let e1 = eng\<lparr>vmin := Some lo, vmax := Some hi\<rparr> in
         case update_display ev h e1 of
           Some e \<Rightarrow> Raised e e1
         | None \<Rightarrow> Returned e1)
      else Returned eng)"

definition set_scaling_mode :: "env \<Rightarrow> store \<Rightarrow> string \<Rightarrow> engine \<Rightarrow> engine outcome" where
  "set_scaling_mode ev h mode eng =
     (if mode \<in> set [''linear'', ''log'', ''sqrt'', ''asinh''] then
        (let e1 = eng\<lparr>scaling_mode := mode\<rparr> in
         case update_display ev h e1 of
           Some e \<Rightarrow> Raised e e1
         | None \<Rightarrow> Returned e1)
      else Returned eng)"

section \<open>HistogramWidget\<close>

text \<open>
  \<open>np.histogram(a, bins)\<close> for an integer number of bins: equal-width bins between the
  minimum and the maximum of the data (widened by one half on each side when they
  coincide; from 0 to 1 for no data), each half-open but the last, which is closed.  It
  raises ValueError for less than one bin, and whatever the library raises when it cannot
  lay out the bins in floating point; when it returns, the edges and the counts are
  those of exact arithmetic.
\<close>

definition np_histogram ::
  "env \<Rightarrow> dtype \<Rightarrow> real list \<Rightarrow> int \<Rightarrow> py_error + nat list \<times> real list" where
  "np_histogram ev t a bins =
     (if bins < 1 then Inl ValueError
      else case histogram_error ev t a bins of Some e \<Rightarrow> Inl e | None \<Rightarrow>
           let n = nat bins;
               mn = (if a = [] then 0 else Min (set a));
               mx = (if a = [] then 1 else Max (set a));
               first_edge = (if mn = mx then mn - 1 / 2 else mn);
               last_edge = (if mn = mx then mx + 1 / 2 else mx);
               bin_edges = map (\<lambda>i. first_edge + real i * (last_edge - first_edge) / real n) [0..<n]
                             @ [last_edge]
           in Inr (map (\<lambda>i. length (filter (\<lambda>x. bin_edges ! i \<le> x \<and>
                                  (if i = n - 1 then x \<le> bin_edges ! (i + 1)
                                   else x < bin_edges ! (i + 1))) a)) [0..<n],
                   bin_edges))"

text \<open>
  The widget keeps the array it was given; \<open>bars\<close> are the bars on its axes, each with
  its left edge, its width and its height.  (The colours, the marker lines and the
  decoration of the axes are not modelled.)
\<close>

record histogram_widget =
  hist_current_data :: "ref option"
  bars :: "(real \<times> real \<times> nat) list"

definition update_histogram ::
  "env \<Rightarrow> store \<Rightarrow> ref option \<Rightarrow> int \<Rightarrow> histogram_widget \<Rightarrow> histogram_widget outcome" where
  "update_histogram ev h data bins w =
     (case data of
        None \<Rightarrow> Returned w
      | Some r \<Rightarrow>
          let w1 = w\<lparr>hist_current_data := Some r, bars := []\<rparr>;
              valid_data = finite_vals (elems (cells h r)) in
          if length valid_data = 0 then Returned w1
          else
            (case np_histogram ev (dtype (cells h r)) valid_data bins of
               Inl e \<Rightarrow> Raised e w1
             | Inr (counts, bin_edges) \<Rightarrow>
                 Returned (w1\<lparr>bars := map (\<lambda>i. (bin_edges ! i,
                                                 bin_edges ! (i + 1) - bin_edges ! i,
                                                 counts ! i)) [0..<length counts]\<rparr>)))"

section \<open>FITSFileManager\<close>

record hdu =
  hdu_type :: string
  hdu_data :: "ref option"
  header_cards :: "(string \<times> string) list"
  header_str :: string

record fits_file_manager =
  hdulist :: "hdu list option"
  filepath :: "string option"
  num_hdus :: int

datatype pyval = PyInt int | PyStr string | PyBool bool | PyNone | PyShape "nat list"

type_synonym pydict = "(string \<times> pyval) list"

text \<open>\<open>hdu.header.get('EXTNAME', '')\<close>.\<close>

definition header_get :: "(string \<times> string) list \<Rightarrow> string \<Rightarrow> string \<Rightarrow> string" where
  "header_get cards k dflt = (case map_of cards k of None \<Rightarrow> dflt | Some v \<Rightarrow> v)"

text \<open>\<open>self.hdulist[index]\<close> for an index that the guard has made non-negative.\<close>

definition hdulist_item :: "hdu list \<Rightarrow> int \<Rightarrow> py_error + hdu" where
  "hdulist_item hs i =
     (if 0 \<le> i \<and> i < int (length hs) then Inr (hs ! nat i) else Inl IndexError)"

definition get_hdu_info :: "store \<Rightarrow> fits_file_manager \<Rightarrow> int \<Rightarrow> py_error + pydict" where
  "get_hdu_info h fm i =
     (case hdulist fm of
        None \<Rightarrow> Inr []
      | Some hs \<Rightarrow>
          if i < 0 \<or> i \<ge> num_hdus fm then Inr []
          else (case hdulist_item hs i of
                  Inl e \<Rightarrow> Inl e
                | Inr u \<Rightarrow> Inr
                    [(''index'', PyInt i),
                     (''type'', PyStr (hdu_type u)),
                     (''dimensions'',
                        (case hdu_data u of None \<Rightarrow> PyNone | Some r \<Rightarrow> PyShape (shape (cells h r)))),
                     (''dtype'',
                        (case hdu_data u of None \<Rightarrow> PyNone
                         | Some r \<Rightarrow> PyStr (dtype_name (dtype (cells h r))))),
                     (''has_data'', PyBool (hdu_data u \<noteq> None)),
                     (''extname'', PyStr (header_get (header_cards u) ''EXTNAME'' ''''))]))"

definition get_header :: "fits_file_manager \<Rightarrow> int \<Rightarrow> py_error + string" where
  "get_header fm i =
     (case hdulist fm of
        None \<Rightarrow> Inr ''''
      | Some hs \<Rightarrow>
          if i < 0 \<or> i \<ge> num_hdus fm then Inr ''''
          else (case hdulist_item hs i of Inl e \<Rightarrow> Inl e | Inr u \<Rightarrow> Inr (header_str u)))"

definition get_data :: "fits_file_manager \<Rightarrow> int \<Rightarrow> py_error + ref option" where
  "get_data fm i =
     (case hdulist fm of
        None \<Rightarrow> Inr None
      | Some hs \<Rightarrow>
          if i < 0 \<or> i \<ge> num_hdus fm then Inr None
          else (case hdulist_item hs i of Inl e \<Rightarrow> Inl e | Inr u \<Rightarrow> Inr (hdu_data u)))"

section \<open>MainWindow\<close>

record main_window =
  heap :: store
  fits_manager :: fits_file_manager
  current_hdu_index :: int
  original_data :: "ref option"
  rotation_angle :: int
  flip_horizontal :: bool
  flip_vertical :: bool
  image_engine :: engine
  histogram_widget :: histogram_widget

text \<open>
  \<open>apply_transformations\<close>, in the order of the source.  First the array to start
  from: a copy of \<open>original_data\<close>, or, when that is unset, a copy of the array of the
  current HDU, of which another copy becomes \<open>original_data\<close>.  The left summand is
  the early exit.
\<close>

definition start_from_original ::
  "main_window \<Rightarrow> main_window outcome + sample ndarray \<times> main_window" where
  "start_from_original s =
     (case original_data s of
        Some r \<Rightarrow> Inr (cells (heap s) r, s)
      | None \<Rightarrow>
          (case get_data (fits_manager s) (current_hdu_index s) of
             Inl e \<Rightarrow> Inl (Raised e s)
           | Inr None \<Rightarrow> Inl (Returned s)
           | Inr (Some r) \<Rightarrow>
               let (orig, h') = alloc (cells (heap s) r) (heap s)
               in Inr (cells (heap s) r, s\<lparr>heap := h', original_data := Some orig\<rparr>)))"

text \<open>The rotation, channel by channel for an array with three leading channels.\<close>

definition rotate_data :: "env \<Rightarrow> int \<Rightarrow> sample ndarray \<Rightarrow> py_error + sample ndarray" where
  "rotate_data ev angle data =
     (if ndim data = 3 \<and> shape data ! 0 = 3 then
        (case index_axis0 data 0 of Inl e \<Rightarrow> Inl e | Inr c0 \<Rightarrow>
        (case nd_rotate ev c0 angle of Inl e \<Rightarrow> Inl e | Inr r0 \<Rightarrow>
        (case index_axis0 data 1 of Inl e \<Rightarrow> Inl e | Inr c1 \<Rightarrow>
        (case nd_rotate ev c1 angle of Inl e \<Rightarrow> Inl e | Inr r1 \<Rightarrow>
        (case index_axis0 data 2 of Inl e \<Rightarrow> Inl e | Inr c2 \<Rightarrow>
        (case nd_rotate ev c2 angle of Inl e \<Rightarrow> Inl e | Inr r2 \<Rightarrow>
           np_array3 r0 r1 r2))))))
      else nd_rotate ev data angle)"

text \<open>
  The restoration of the element type: when the rotated array has another type, it is
  clipped to the range of an original integer type and converted back.  (\<open>np.clip\<close>
  and \<open>astype\<close> are taken not to raise.)
\<close>

definition preserve_dtype :: "env \<Rightarrow> dtype \<Rightarrow> sample ndarray \<Rightarrow> sample ndarray" where
  "preserve_dtype ev original_dtype data =
     (if dtype data \<noteq> original_dtype then
        astype ev original_dtype
          (if is_integer original_dtype
           then data\<lparr>elems := map (\<lambda>x. clip_hi (Some (real_of_int (iinfo_max original_dtype)))
                                      (clip_lo (Some (real_of_int (iinfo_min original_dtype))) x))
                                (elems data)\<rparr>
           else data)
      else data)"

text \<open>The body of the \<open>try\<close> statement; a left result is the exception it catches.\<close>

definition rotate_block :: "env \<Rightarrow> int \<Rightarrow> sample ndarray \<Rightarrow> py_error + sample ndarray" where
  "rotate_block ev angle data =
     (if angle \<noteq> 0 then
        (case rotate_data ev angle data of
           Inl e \<Rightarrow> Inl e
         | Inr rotated \<Rightarrow> Inr (preserve_dtype ev (dtype data) rotated))
      else Inr data)"

definition flip_block :: "bool \<Rightarrow> bool \<Rightarrow> sample ndarray \<Rightarrow> py_error + sample ndarray" where
  "flip_block fh fv data =
     (case (if fh then np_flip_last data else Inr data) of
        Inl e \<Rightarrow> Inl e
      | Inr d1 \<Rightarrow> (if fv then np_flip_second_last d1 else Inr d1))"

text \<open>
  The update of the display: the bounds are read, the engine is given the array (which
  rescales automatically), the bounds are put back when both were set, and the histogram
  is drawn again.  (Redrawing the canvas and the message in the status bar are not
  modelled.)
\<close>

definition show_transformed :: "env \<Rightarrow> sample ndarray \<Rightarrow> main_window \<Rightarrow> main_window outcome" where
  "show_transformed ev data s =
     (let old_vmin = vmin (image_engine s);
          old_vmax = vmax (image_engine s);
          (d, h') = alloc data (heap s);
          s1 = s\<lparr>heap := h', image_engine := (image_engine s)\<lparr>current_data := Some d\<rparr>\<rparr>
      in case set_data ev h' (Some d) (image_engine s1) of
           Raised e eng \<Rightarrow> Raised e (s1\<lparr>image_engine := eng\<rparr>)
         | Returned eng \<Rightarrow>
             (case (if old_vmin \<noteq> None \<and> old_vmax \<noteq> None then
                      (let eng' = eng\<lparr>vmin := old_vmin, vmax := old_vmax\<rparr> in
                       case update_display ev h' eng' of
                         Some e \<Rightarrow> Raised e eng'
                       | None \<Rightarrow> Returned eng')
                    else Returned eng) of
                Raised e eng' \<Rightarrow> Raised e (s1\<lparr>image_engine := eng'\<rparr>)
              | Returned eng' \<Rightarrow>
                  (case update_histogram ev h' (Some d) 100 (histogram_widget s1) of
                     Raised e w \<Rightarrow> Raised e (s1\<lparr>image_engine := eng', histogram_widget := w\<rparr>)
                   | Returned w \<Rightarrow> Returned (s1\<lparr>image_engine := eng', histogram_widget := w\<rparr>))))"

definition apply_transformations :: "env \<Rightarrow> main_window \<Rightarrow> main_window outcome" where
  "apply_transformations ev s =
     (if current_data (image_engine s) = None then Returned s
      else
        (case start_from_original s of
           Inl out \<Rightarrow> out
         | Inr (data, s1) \<Rightarrow>
             (case rotate_block ev (rotation_angle s1) data of
                Inl e \<Rightarrow> Returned s1
              | Inr rotated \<Rightarrow>
                  (case flip_block (flip_horizontal s1) (flip_vertical s1) rotated of
                     Inl e \<Rightarrow> Raised e s1
                   | Inr flipped \<Rightarrow> show_transformed ev flipped s1))))"

definition rotate_image :: "env \<Rightarrow> int \<Rightarrow> main_window \<Rightarrow> main_window outcome" where
  "rotate_image ev angle s =
     (if current_data (image_engine s) = None then Returned s
      else apply_transformations ev (s\<lparr>rotation_angle := angle mod 360\<rparr>))"

definition flip_horizontal_image :: "env \<Rightarrow> main_window \<Rightarrow> main_window outcome" where
  "flip_horizontal_image ev s =
     (if current_data (image_engine s) = None then Returned s
      else apply_transformations ev (s\<lparr>flip_horizontal := \<not> flip_horizontal s\<rparr>))"

definition flip_vertical_image :: "env \<Rightarrow> main_window \<Rightarrow> main_window outcome" where
  "flip_vertical_image ev s =
     (if current_data (image_engine s) = None then Returned s
      else apply_transformations ev (s\<lparr>flip_vertical := \<not> flip_vertical s\<rparr>))"

text \<open>
  The rotations and flips that the menu offers, and a sequence of them.  After an
  exception the window goes on from the state in which it was raised.
\<close>

datatype transform_op = Rotate int | FlipHorizontal | FlipVertical

fun perform :: "env \<Rightarrow> transform_op \<Rightarrow> main_window \<Rightarrow> main_window outcome" where
  "perform ev (Rotate angle) s = rotate_image ev angle s"
| "perform ev FlipHorizontal s = flip_horizontal_image ev s"
| "perform ev FlipVertical s = flip_vertical_image ev s"

fun perform_all :: "env \<Rightarrow> transform_op list \<Rightarrow> main_window \<Rightarrow> main_window" where
  "perform_all ev [] s = s"
| "perform_all ev (x # xs) s = perform_all ev xs (state_of (perform ev x s))"

text \<open>
  The canonical array of a window: the array that \<open>original_data\<close> holds or, before the
  first transformation, the array of the current HDU that it will capture.
\<close>

definition canonical :: "main_window \<Rightarrow> sample ndarray option" where
  "canonical s =
     (case original_data s of
        Some r \<Rightarrow> Some (cells (heap s) r)
      | None \<Rightarrow>
          (case get_data (fits_manager s) (current_hdu_index s) of
             Inr (Some r) \<Rightarrow> Some (cells (heap s) r)
           | _ \<Rightarrow> None))"

text \<open>Every reference held by the window or by an HDU is allocated.\<close>

definition hdu_refs_ok :: "store \<Rightarrow> fits_file_manager \<Rightarrow> bool" where
  "hdu_refs_ok h fm =
     (case hdulist fm of
        None \<Rightarrow> True
      | Some hs \<Rightarrow> list_all (\<lambda>u. case hdu_data u of None \<Rightarrow> True | Some r \<Rightarrow> r < next_ref h) hs)"

definition store_ok :: "main_window \<Rightarrow> bool" where
  "store_ok s =
     ((case original_data s of None \<Rightarrow> True | Some r \<Rightarrow> r < next_ref (heap s))
      \<and> hdu_refs_ok (heap s) (fits_manager s))"

section \<open>Notions used in the statements\<close>

text \<open>The bounds of an engine are in strict order, when both are set.\<close>

definition bounds_ordered :: "engine \<Rightarrow> bool" where
  "bounds_ordered eng = (case (vmin eng, vmax eng) of (Some a, Some b) \<Rightarrow> a < b | _ \<Rightarrow> True)"

text \<open>
  What a transformation may change in the store and in the window: it allocates, and it
  may set \<open>original_data\<close> when that was unset.
\<close>

definition extends :: "main_window \<Rightarrow> main_window \<Rightarrow> bool" where
  "extends s s' =
     (fits_manager s' = fits_manager s
      \<and> current_hdu_index s' = current_hdu_index s
      \<and> next_ref (heap s) \<le> next_ref (heap s')
      \<and> (\<forall>r<next_ref (heap s). cells (heap s') r = cells (heap s) r)
      \<and> (\<forall>r. original_data s = Some r \<longrightarrow> original_data s' = Some r)
      \<and> (current_data (image_engine s) \<noteq> None \<longrightarrow> current_data (image_engine s') \<noteq> None))"

text \<open>The array that a transformation displays, as a function of the array it starts from.\<close>

definition transform_array ::
  "env \<Rightarrow> int \<Rightarrow> bool \<Rightarrow> bool \<Rightarrow> sample ndarray \<Rightarrow> py_error + sample ndarray" where
  "transform_array ev angle fh fv a =
     (case rotate_block ev angle a of Inl e \<Rightarrow> Inl e | Inr rt \<Rightarrow> flip_block fh fv rt)"

text \<open>A finite value between 0 and 1.\<close>

fun in_unit_interval :: "sample \<Rightarrow> bool" where
  "in_unit_interval (Finite v) = (0 \<le> v \<and> v \<le> 1)"
| "in_unit_interval _ = False"

section \<open>Examples\<close>

text \<open>A store that holds one array, at reference 0, and an engine that displays it.\<close>

definition store_of :: "sample ndarray \<Rightarrow> store" where
  "store_of a = \<lparr>cells = (\<lambda>_. a), next_ref = 1\<rparr>"

definition engine_on :: "string \<Rightarrow> real option \<Rightarrow> real option \<Rightarrow> engine" where
  "engine_on mode lo hi =
     \<lparr>current_data = Some 0, vmin = lo, vmax = hi, scaling_mode = mode, colormap = ''viridis''\<rparr>"

text \<open>Arrays of rank 1 to 4, a constant image, images with non-finite elements.\<close>

definition rank1_example :: "sample ndarray" where
  "rank1_example = \<lparr>dtype = Float64, shape = [3], elems = [Finite 1, Finite 2, Finite 3]\<rparr>"

definition rank2_example :: "sample ndarray" where
  "rank2_example = \<lparr>dtype = Float64, shape = [1, 2], elems = [Finite 1, Finite 2]\<rparr>"

definition rgb_example :: "sample ndarray" where
  "rgb_example = \<lparr>dtype = Float64, shape = [3, 1, 2],
     elems = [Finite 1, Finite 2, Finite 3, Finite 4, Finite 5, Finite 6]\<rparr>"

definition cube_example :: "sample ndarray" where
  "cube_example = \<lparr>dtype = Float64, shape = [2, 1, 2],
     elems = [Finite 1, Finite 2, Finite 3, Finite 4]\<rparr>"

definition rank4_example :: "sample ndarray" where
  "rank4_example = \<lparr>dtype = Float64, shape = [2, 3, 1, 2],
     elems = [Finite 1, Finite 2, Finite 3, Finite 4, Finite 5, Finite 6,
              Finite 7, Finite 8, Finite 9, Finite 10, Finite 11, Finite 12]\<rparr>"

definition constant_image :: "sample ndarray" where
  "constant_image = \<lparr>dtype = Float64, shape = [2, 2],
     elems = [Finite 5, Finite 5, Finite 5, Finite 5]\<rparr>"

definition ramp_image :: "sample ndarray" where
  "ramp_image = \<lparr>dtype = Float64, shape = [1, 3], elems = [Finite 3, NaN, Finite 1]\<rparr>"

definition nan_image :: "sample ndarray" where
  "nan_image = \<lparr>dtype = Float64, shape = [1, 2], elems = [NaN, PosInf]\<rparr>"

definition bright_image :: "sample ndarray" where
  "bright_image = \<lparr>dtype = Float64, shape = [2, 2],
     elems = [Finite 200, Finite 300, Finite 400, Finite 500]\<rparr>"

text \<open>
  Arrays at the limits of their element types: a constant float64 image of value
  \<open>2\<^sup>5\<^sup>3\<close>, a constant uint8 image of value 255, and a float64 image whose two
  elements are \<open>2\<^sup>1\<^sup>0\<^sup>2\<^sup>3\<close> apart from zero on either side.  Arrays with an axis of
  length zero.
\<close>

definition huge_constant_image :: "sample ndarray" where
  "huge_constant_image = \<lparr>dtype = Float64, shape = [2, 2],
     elems = [Finite (2 ^ 53), Finite (2 ^ 53), Finite (2 ^ 53), Finite (2 ^ 53)]\<rparr>"

definition saturated_image :: "sample ndarray" where
  "saturated_image = \<lparr>dtype = UInt8, shape = [2, 2],
     elems = [Finite 255, Finite 255, Finite 255, Finite 255]\<rparr>"

definition wide_image :: "sample ndarray" where
  "wide_image = \<lparr>dtype = Float64, shape = [1, 2],
     elems = [Finite (- (2 ^ 1023)), Finite (2 ^ 1023)]\<rparr>"

definition empty_cube :: "sample ndarray" where
  "empty_cube = \<lparr>dtype = Float64, shape = [0, 2, 2], elems = []\<rparr>"

definition empty_rank4 :: "sample ndarray" where
  "empty_rank4 = \<lparr>dtype = Float64, shape = [2, 0, 2, 2], elems = []\<rparr>"

definition square_image :: "sample ndarray" where
  "square_image = \<lparr>dtype = Int16, shape = [2, 2],
     elems = [Finite 1, Finite 2, Finite 3, Finite 4]\<rparr>"

text \<open>A histogram widget that still shows a bar of an earlier array.\<close>

definition empty_widget :: histogram_widget where
  "empty_widget = \<lparr>hist_current_data = None, bars = [(0, 1, 7)]\<rparr>"

text \<open>
  Stand-ins for the libraries, with a renderer that never raises.  The rotation of
  the first returns its argument as a float64 array; that of the second returns the
  elements in reverse order, halved and shifted beyond the range of int16, as a float64
  array.  In both, \<open>np.histogram\<close> lays out its bins without an error.  In the third,
  \<open>np.histogram\<close> raises ValueError when the range of the data overflows the floating
  type in which the bins are laid out (binary64 for an integer array), as numpy does on
  such data.
\<close>

definition quiet_env :: env where
  "quiet_env = \<lparr>nd_rotate = (\<lambda>a k. Inr (a\<lparr>dtype := Float64\<rparr>)), render = (\<lambda>_. None),
                 undef_cast = (\<lambda>_ _. 0), histogram_error = (\<lambda>_ _ _. None)\<rparr>"

definition half_turn_env :: env where
  "half_turn_env =
     \<lparr>nd_rotate = (\<lambda>a k. Inr \<lparr>dtype = Float64, shape = shape a,
                              elems = rev (map (\<lambda>x. s_add (s_div x (Finite 2)) (Finite 32766)) (elems a))\<rparr>),
      render = (\<lambda>_. None),
      undef_cast = (\<lambda>_ _. 0),
      histogram_error = (\<lambda>_ _ _. None)\<rparr>"

definition overflow_env :: env where
  "overflow_env =
     quiet_env\<lparr>histogram_error :=
       (\<lambda>t a bins.
          if a = [] then None
          else (case float_round (if is_integer t then Float64 else t)
                       (Max (set a) - Min (set a)) of
                  Finite _ \<Rightarrow> None
                | _ \<Rightarrow> Some ValueError))\<rparr>"

text \<open>
  A window after a file with one int16 image was opened: the engine displays the array
  of the HDU and no transformation has captured it yet; and the same window after the
  capture.
\<close>

definition loaded_window :: main_window where
  "loaded_window =
     \<lparr>heap = store_of square_image,
      fits_manager = \<lparr>hdulist = Some [\<lparr>hdu_type = ''PrimaryHDU'', hdu_data = Some 0,
                                        header_cards = [], header_str = ''''\<rparr>],
                      filepath = Some ''m.fits'', num_hdus = 1\<rparr>,
      current_hdu_index = 0,
      original_data = None,
      rotation_angle = 0,
      flip_horizontal = False,
      flip_vertical = False,
      image_engine = engine_on ''linear'' (Some 1) (Some 4),
      histogram_widget = empty_widget\<rparr>"

definition captured_window :: main_window where
  "captured_window =
     loaded_window\<lparr>heap := \<lparr>cells = (\<lambda>_. square_image), next_ref = 2\<rparr>, original_data := Some 1\<rparr>"

section \<open>Channel reduction\<close>

lemma flat_index_less:
  "valid_index ns js \<Longrightarrow> flat_index ns js < prod_list ns"
proof (induction ns js rule: valid_index.induct)
  case (2 n ns i js)
  then have a: "i < n" and b: "flat_index ns js < prod_list ns" by auto
  have "i * prod_list ns + flat_index ns js < i * prod_list ns + prod_list ns" using b by simp
  also have "\<dots> = Suc i * prod_list ns" by simp
  also have "\<dots> \<le> n * prod_list ns" using a by (intro mult_le_mono1) simp
  finally show ?case by simp
qed auto

lemma index_axis0_get:
  assumes "well_shaped a" "shape a = n # ns" "i < n"
  shows "\<exists>b. index_axis0 a i = Inr b \<and> shape b = ns \<and> well_shaped b \<and> dtype b = dtype a \<and>
           (\<forall>js. valid_index ns js \<longrightarrow> nd_get b js = nd_get a (i # js))"
proof -
  let ?p = "prod_list ns"
  let ?b = "a\<lparr>shape := ns, elems := take ?p (drop (i * ?p) (elems a))\<rparr>"
  have len: "length (elems a) = n * ?p" using assms by (simp add: well_shaped_def)
  have "Suc i * ?p \<le> n * ?p" using assms(3) by (intro mult_le_mono1) simp
  then have le: "i * ?p + ?p \<le> length (elems a)" using len by simp
  have 1: "index_axis0 a i = Inr ?b" using assms by (simp add: index_axis0_def)
  have 2: "well_shaped ?b" using le by (simp add: well_shaped_def)
  have 3: "nd_get ?b js = nd_get a (i # js)" if "valid_index ns js" for js
  proof -
    have "flat_index ns js < ?p" using that by (rule flat_index_less)
    then show ?thesis using le assms(2) by (simp add: nd_get_def)
  qed
  show ?thesis using 1 2 3 by simp
qed

lemma valid_index_append:
  "length is = length ms \<Longrightarrow> valid_index (ms @ ns) (is @ js) = (valid_index ms is \<and> valid_index ns js)"
  by (induction ms "is" rule: valid_index.induct) auto

lemma index_leading_get:
  assumes "well_shaped a" "shape a = ms @ ns" "valid_index ms is"
  shows "\<exists>b. index_leading a is = Inr b \<and> shape b = ns \<and> well_shaped b \<and> dtype b = dtype a \<and>
           (\<forall>js. valid_index ns js \<longrightarrow> nd_get b js = nd_get a (is @ js))"
  using assms
proof (induction ms "is" arbitrary: a rule: valid_index.induct)
  case 1
  then show ?case by simp
next
  case (2 n ms i js)
  from index_axis0_get[of a n "ms @ ns" i] 2
  obtain b where b: "index_axis0 a i = Inr b" "shape b = ms @ ns" "well_shaped b" "dtype b = dtype a"
    "\<forall>ks. valid_index (ms @ ns) ks \<longrightarrow> nd_get b ks = nd_get a (i # ks)" by auto
  from 2 have v: "valid_index ms js" by simp
  from "2.IH"[OF b(3) b(2) v]
  obtain c where c: "index_leading b js = Inr c" "shape c = ns" "well_shaped c" "dtype c = dtype b"
    "\<forall>ks. valid_index ns ks \<longrightarrow> nd_get c ks = nd_get b (js @ ks)" by auto
  have len: "length js = length ms" using v by (induction ms js rule: valid_index.induct) auto
  have "nd_get c ks = nd_get a ((i # js) @ ks)" if "valid_index ns ks" for ks
    using c(5) b(5) that v len by (simp add: valid_index_append)
  then show ?case using b c by simp
qed auto


lemma length_concat_uniform:
  "(\<And>i. i < n \<Longrightarrow> length (f i) = m) \<Longrightarrow> length (concat (map f [0..<n])) = n * m"
  by (induction n) auto

lemma nth_concat_uniform:
  "(\<And>i. i < n \<Longrightarrow> length (f i) = m) \<Longrightarrow> i < n \<Longrightarrow> r < m \<Longrightarrow>
     concat (map f [0..<n]) ! (i * m + r) = f i ! r"
proof (induction n)
  case 0
  then show ?case by simp
next
  case (Suc n)
  have len: "length (concat (map f [0..<n])) = n * m"
    using Suc.prems(1) by (intro length_concat_uniform) simp
  show ?case
  proof (cases "i < n")
    case True
    have "Suc i * m \<le> n * m" using True by (intro mult_le_mono1) simp
    then have "i * m + r < n * m" using Suc.prems(3) by simp
    then show ?thesis using Suc True len by (simp add: nth_append)
  next
    case False
    then have "i = n" using Suc.prems(2) by simp
    then show ?thesis using len by (simp add: nth_append)
  qed
qed

lemma transpose_120_get:
  assumes "shape a = [c, h, w]"
  shows "\<exists>b. transpose_120 a = Inr b \<and> shape b = [h, w, c] \<and> dtype b = dtype a \<and>
           length (elems b) = h * (w * c) \<and>
           (\<forall>i<h. \<forall>j<w. \<forall>k<c. nd_get b [i, j, k] = nd_get a [k, i, j])"
proof -
  let ?g = "\<lambda>i j. map (\<lambda>k. elems a ! ((k * h + i) * w + j)) [0..<c]"
  let ?f = "\<lambda>i. concat (map (?g i) [0..<w])"
  let ?b = "a\<lparr>shape := [h, w, c], elems := concat (map ?f [0..<h])\<rparr>"
  have 1: "transpose_120 a = Inr ?b" using assms by (simp add: transpose_120_def)
  have lf: "length (?f i) = w * c" for i
    by (intro length_concat_uniform) simp
  have len: "length (concat (map ?f [0..<h])) = h * (w * c)"
    by (intro length_concat_uniform lf)
  have 2: "nd_get ?b [i, j, k] = nd_get a [k, i, j]" if "i < h" "j < w" "k < c" for i j k
  proof -
    have "Suc j * c \<le> w * c" using that(2) by (intro mult_le_mono1) simp
    then have r: "j * c + k < w * c" using that(3) by simp
    have "concat (map ?f [0..<h]) ! (i * (w * c) + (j * c + k)) = ?f i ! (j * c + k)"
      using that(1) r by (intro nth_concat_uniform lf)
    also have "\<dots> = ?g i j ! k"
      using that by (intro nth_concat_uniform) simp_all
    also have "\<dots> = elems a ! ((k * h + i) * w + j)" using that by simp
    finally show ?thesis using assms by (simp add: nd_get_def algebra_simps)
  qed
  show ?thesis using 1 2 len by simp
qed

lemma take_map_upt: "k \<le> length xs \<Longrightarrow> map (\<lambda>i. f (xs ! i)) [0..<k] = map f (take k xs)"
  by (simp add: list_eq_iff_nth_eq)

lemma valid_index_middle: "(\<forall>n\<in>set ls. 0 < n) \<Longrightarrow> valid_index ls (map (\<lambda>n. n div 2) ls)"
  by (induction ls) auto

text \<open>
  C4.  Channel reduction depends on the rank and shape of the current array only: rank 1
  gives no image; rank 2 is returned as it is; rank 3 with three leading channels is
  transposed to channel-last layout; any other rank 3 array with a non-empty first axis
  gives the slice at the middle index \<open>n div 2\<close> of that axis; a higher rank with
  non-empty leading axes gives the two-dimensional slice at the middle index of every
  leading axis.
\<close>

theorem prepare_data_for_display_cases:
  assumes cur: "current_data eng = Some r" and ws: "well_shaped (cells h r)"
  shows "(ndim (cells h r) = 1 \<longrightarrow> prepare_data_for_display h eng = Inr None)
    \<and> (ndim (cells h r) = 2 \<longrightarrow> prepare_data_for_display h eng = Inr (Some (cells h r)))
    \<and> (\<forall>hh w. shape (cells h r) = [3, hh, w] \<longrightarrow>
          (\<exists>res. prepare_data_for_display h eng = Inr (Some res) \<and> shape res = [hh, w, 3] \<and>
               (\<forall>i<hh. \<forall>j<w. \<forall>k<3. nd_get res [i, j, k] = nd_get (cells h r) [k, i, j])))
    \<and> (\<forall>n hh w. shape (cells h r) = [n, hh, w] \<and> n \<noteq> 3 \<and> 0 < n \<longrightarrow>
          (\<exists>res. prepare_data_for_display h eng = Inr (Some res) \<and> shape res = [hh, w] \<and>
               (\<forall>i<hh. \<forall>j<w. nd_get res [i, j] = nd_get (cells h r) [n div 2, i, j])))
    \<and> (\<forall>ls hh w. shape (cells h r) = ls @ [hh, w] \<and> 2 \<le> length ls \<and> (\<forall>n\<in>set ls. 0 < n) \<longrightarrow>
          (\<exists>res. prepare_data_for_display h eng = Inr (Some res) \<and> shape res = [hh, w] \<and>
               (\<forall>i<hh. \<forall>j<w. nd_get res [i, j]
                   = nd_get (cells h r) (map (\<lambda>n. n div 2) ls @ [i, j]))))"
proof -
  define d where "d = cells h r"
  have ws': "well_shaped d" using ws by (simp add: d_def)
  have p: "prepare_data_for_display h eng =
      (if ndim d = 1 then Inr None
       else if ndim d = 2 then Inr (Some d)
       else if ndim d = 3 then
         (if shape d ! 0 = 3 then map_sum id Some (transpose_120 d)
          else map_sum id Some (index_axis0 d (shape d ! 0 div 2)))
       else map_sum id Some
              (index_leading d (map (\<lambda>i. shape d ! i div 2) [0..<ndim d - 2])))"
    using cur by (simp add: prepare_data_for_display_def reduce_for_display_def d_def)
  have c1: "prepare_data_for_display h eng = Inr None" if "ndim d = 1"
    using that by (simp add: p)
  have c2: "prepare_data_for_display h eng = Inr (Some d)" if "ndim d = 2"
    using that by (simp add: p)
  have c3: "\<exists>res. prepare_data_for_display h eng = Inr (Some res) \<and> shape res = [hh, w, 3] \<and>
               (\<forall>i<hh. \<forall>j<w. \<forall>k<3. nd_get res [i, j, k] = nd_get d [k, i, j])"
    if s: "shape d = [3, hh, w]" for hh w
  proof -
    from transpose_120_get[OF s] obtain b where
      b: "transpose_120 d = Inr b" "shape b = [hh, w, 3]"
         "\<forall>i<hh. \<forall>j<w. \<forall>k<3. nd_get b [i, j, k] = nd_get d [k, i, j]" by blast
    have "prepare_data_for_display h eng = Inr (Some b)"
      using s b(1) by (simp add: p ndim_def)
    then show ?thesis using b by blast
  qed
  have c4: "\<exists>res. prepare_data_for_display h eng = Inr (Some res) \<and> shape res = [hh, w] \<and>
               (\<forall>i<hh. \<forall>j<w. nd_get res [i, j] = nd_get d [n div 2, i, j])"
    if a: "shape d = [n, hh, w] \<and> n \<noteq> 3 \<and> 0 < n" for n hh w
  proof -
    from a have s: "shape d = n # [hh, w]" and n: "n div 2 < n" by auto
    from index_axis0_get[OF ws' s n] obtain b where
      b: "index_axis0 d (n div 2) = Inr b" "shape b = [hh, w]"
         "\<forall>js. valid_index [hh, w] js \<longrightarrow> nd_get b js = nd_get d (n div 2 # js)" by blast
    have "prepare_data_for_display h eng = Inr (Some b)"
      using a b(1) by (simp add: p ndim_def)
    moreover have "\<forall>i<hh. \<forall>j<w. nd_get b [i, j] = nd_get d [n div 2, i, j]"
      using b(3) by simp
    ultimately show ?thesis using b(2) by blast
  qed
  have c5: "\<exists>res. prepare_data_for_display h eng = Inr (Some res) \<and> shape res = [hh, w] \<and>
               (\<forall>i<hh. \<forall>j<w. nd_get res [i, j] = nd_get d (map (\<lambda>n. n div 2) ls @ [i, j]))"
    if a: "shape d = ls @ [hh, w] \<and> 2 \<le> length ls \<and> (\<forall>n\<in>set ls. 0 < n)" for ls hh w
  proof -
    let ?is = "map (\<lambda>n. n div 2) ls"
    have v: "valid_index ls ?is" using a by (intro valid_index_middle) simp
    from a have s: "shape d = ls @ [hh, w]" by simp
    from index_leading_get[OF ws' s v] obtain b where
      b: "index_leading d ?is = Inr b" "shape b = [hh, w]"
         "\<forall>js. valid_index [hh, w] js \<longrightarrow> nd_get b js = nd_get d (?is @ js)" by blast
    have "map (\<lambda>i. shape d ! i div 2) [0..<ndim d - 2]
            = map (\<lambda>n. n div 2) (take (ndim d - 2) (shape d))"
      by (intro take_map_upt) (simp add: ndim_def)
    also have "take (ndim d - 2) (shape d) = ls" using s by (simp add: ndim_def)
    finally have m: "map (\<lambda>i. shape d ! i div 2) [0..<ndim d - 2] = ?is" .
    have nd: "ndim d \<noteq> 1" "ndim d \<noteq> 2" "ndim d \<noteq> 3" using a by (auto simp: ndim_def)
    have "prepare_data_for_display h eng = Inr (Some b)"
      using nd b(1) by (simp add: p m)
    moreover have "\<forall>i<hh. \<forall>j<w. nd_get b [i, j] = nd_get d (?is @ [i, j])"
      using b(3) by simp
    ultimately show ?thesis using b(2) by blast
  qed
  show ?thesis
    unfolding d_def[symmetric] using c1 c2 c3 c4 c5 by blast
qed

theorem prepare_data_for_display_cases_witness:
  "prepare_data_for_display (store_of rank1_example) (engine_on ''linear'' None None) = Inr None
   \<and> prepare_data_for_display (store_of rank2_example) (engine_on ''linear'' None None)
       = Inr (Some rank2_example)
   \<and> (\<exists>res. prepare_data_for_display (store_of rgb_example) (engine_on ''linear'' None None)
               = Inr (Some res) \<and> shape res = [1, 2, 3] \<and> nd_get res [0, 1, 2] = Finite 6)
   \<and> (\<exists>res. prepare_data_for_display (store_of cube_example) (engine_on ''linear'' None None)
               = Inr (Some res) \<and> shape res = [1, 2] \<and> nd_get res [0, 1] = Finite 4)
   \<and> (\<exists>res. prepare_data_for_display (store_of rank4_example) (engine_on ''linear'' None None)
               = Inr (Some res) \<and> shape res = [1, 2] \<and> nd_get res [0, 1] = Finite 10)"
proof -
  let ?e = "engine_on ''linear'' None None"
  have cur: "current_data ?e = Some 0" by (simp add: engine_on_def)
  have w1: "well_shaped (cells (store_of rank1_example) 0)"
    and w2: "well_shaped (cells (store_of rank2_example) 0)"
    and w3: "well_shaped (cells (store_of rgb_example) 0)"
    and w4: "well_shaped (cells (store_of cube_example) 0)"
    and w5: "well_shaped (cells (store_of rank4_example) 0)"
    by (simp_all add: well_shaped_def store_of_def rank1_example_def rank2_example_def
          rgb_example_def cube_example_def rank4_example_def)
  have a1: "prepare_data_for_display (store_of rank1_example) ?e = Inr None"
    using prepare_data_for_display_cases[OF cur w1, THEN conjunct1]
    by (simp add: ndim_def store_of_def rank1_example_def)
  have a2: "prepare_data_for_display (store_of rank2_example) ?e = Inr (Some rank2_example)"
    using prepare_data_for_display_cases[OF cur w2, THEN conjunct2, THEN conjunct1]
    by (simp add: ndim_def store_of_def rank2_example_def)
  have s3: "shape (cells (store_of rgb_example) 0) = [3, 1, 2]"
    by (simp add: store_of_def rgb_example_def)
  from prepare_data_for_display_cases[OF cur w3, THEN conjunct2, THEN conjunct2,
         THEN conjunct1, rule_format, OF s3]
  obtain r3 where r3: "prepare_data_for_display (store_of rgb_example) ?e = Inr (Some r3)"
    "shape r3 = [1, 2, 3]"
    "\<forall>i<1. \<forall>j<2. \<forall>k<3. nd_get r3 [i, j, k] = nd_get (cells (store_of rgb_example) 0) [k, i, j]"
    by blast
  have "nd_get r3 [0, 1, 2] = nd_get (cells (store_of rgb_example) 0) [2, 0, 1]"
    using r3(3) by simp
  then have a3: "nd_get r3 [0, 1, 2] = Finite 6"
    by (simp add: nd_get_def store_of_def rgb_example_def)
  have s4: "shape (cells (store_of cube_example) 0) = [2, 1, 2] \<and> (2::nat) \<noteq> 3 \<and> (0::nat) < 2"
    by (simp add: store_of_def cube_example_def)
  from prepare_data_for_display_cases[OF cur w4, THEN conjunct2, THEN conjunct2,
         THEN conjunct2, THEN conjunct1, rule_format, OF s4]
  obtain r4 where r4: "prepare_data_for_display (store_of cube_example) ?e = Inr (Some r4)"
    "shape r4 = [1, 2]"
    "\<forall>i<1. \<forall>j<2. nd_get r4 [i, j] = nd_get (cells (store_of cube_example) 0) [2 div 2, i, j]"
    by blast
  have "nd_get r4 [0, 1] = nd_get (cells (store_of cube_example) 0) [2 div 2, 0, 1]"
    using r4(3) by simp
  then have a4: "nd_get r4 [0, 1] = Finite 4"
    by (simp add: nd_get_def store_of_def cube_example_def)
  have s5: "shape (cells (store_of rank4_example) 0) = [2, 3] @ [1, 2] \<and> 2 \<le> length [2::nat, 3]
      \<and> (\<forall>n\<in>set [2::nat, 3]. 0 < n)"
    by (simp add: store_of_def rank4_example_def)
  from prepare_data_for_display_cases[OF cur w5, THEN conjunct2, THEN conjunct2,
         THEN conjunct2, THEN conjunct2, rule_format, OF s5]
  obtain r5 where r5: "prepare_data_for_display (store_of rank4_example) ?e = Inr (Some r5)"
    "shape r5 = [1, 2]"
    "\<forall>i<1. \<forall>j<2. nd_get r5 [i, j]
        = nd_get (cells (store_of rank4_example) 0) (map (\<lambda>n. n div 2) [2, 3] @ [i, j])"
    by blast
  have "nd_get r5 [0, 1] = nd_get (cells (store_of rank4_example) 0) (map (\<lambda>n. n div 2) [2, 3] @ [0, 1])"
    using r5(3) by simp
  then have a5: "nd_get r5 [0, 1] = Finite 10"
    by (simp add: nd_get_def store_of_def rank4_example_def)
  show ?thesis
    apply (intro conjI)
        apply (rule a1)
       apply (rule a2)
      apply (rule exI[of _ r3], intro conjI r3(1) r3(2) a3)
     apply (rule exI[of _ r4], intro conjI r4(1) r4(2) a4)
    apply (rule exI[of _ r5], intro conjI r5(1) r5(2) a5)
    done
qed

text \<open>
  The reduction does not select a slice of every array of rank 3 or more: an axis of
  length zero has no middle index, and indexing it raises IndexError.
\<close>

theorem zero_length_axis_raises:
  "prepare_data_for_display (store_of empty_cube) (engine_on ''linear'' None None)
     = Inl IndexError
   \<and> prepare_data_for_display (store_of empty_rank4) (engine_on ''linear'' None None)
     = Inl IndexError"
  by (simp add: prepare_data_for_display_def reduce_for_display_def store_of_def engine_on_def
        ndim_def index_axis0_def empty_cube_def empty_rank4_def well_shaped_def)

lemma empty_first_axis_raises:
  assumes "current_data eng = Some r" "shape (cells h r) = [0, hh, w]"
  shows "prepare_data_for_display h eng = Inl IndexError"
  using assms
  by (simp add: prepare_data_for_display_def reduce_for_display_def ndim_def index_axis0_def)

section \<open>Rounding to a floating type\<close>

lemma round_half_even_of_int: "round_half_even (of_int k) = k"
  by (simp add: round_half_even_def)

lemma floor_log2_eq:
  assumes "2 powi e \<le> x" "x < 2 powi (e + 1)"
  shows "\<lfloor>log 2 x\<rfloor> = e"
proof -
  have x: "0 < x" using assms(1) by (smt (verit) zero_less_power_int)
  have p: "2 powi k = 2 powr (real_of_int k)" for k :: int
    by (simp add: powr_real_of_int')
  have "real_of_int e \<le> log 2 x"
    using assms(1) x unfolding p by (simp add: le_log_iff)
  moreover have "log 2 x < real_of_int (e + 1)"
    using assms(2) x unfolding p by (subst log_less_iff) simp_all
  ultimately show ?thesis by linarith
qed

text \<open>The rounding of a number whose binary exponent is known.\<close>

lemma round_to_float_eval:
  assumes "2 powi e \<le> \<bar>x\<bar>" "\<bar>x\<bar> < 2 powi (e + 1)" "min_exp t \<le> e"
  shows "round_to_float t x
           = of_int (round_half_even (x / 2 powi (e - int (mant_bits t) + 1)))
               * 2 powi (e - int (mant_bits t) + 1)"
proof -
  have "x \<noteq> 0" using assms(1) by (smt (verit) zero_less_power_int)
  moreover have "\<lfloor>log 2 \<bar>x\<bar>\<rfloor> = e" using assms(1,2) by (rule floor_log2_eq)
  ultimately show ?thesis using assms(3) by (simp add: round_to_float_def Let_def max_def)
qed

lemma min_exp_neg: "min_exp t < 0"
  by (cases t) simp_all

text \<open>An integer of fewer binary digits than the format has is a number of the format.\<close>

lemma round_to_float_of_int:
  assumes "\<bar>k\<bar> < 2 ^ mant_bits t"
  shows "round_to_float t (of_int k) = of_int k"
proof (cases "k = 0")
  case True
  then show ?thesis by (simp add: round_to_float_def)
next
  case False
  define e where "e = \<lfloor>log 2 \<bar>real_of_int k\<bar>\<rfloor>"
  have k1: "1 \<le> \<bar>real_of_int k\<bar>" using False by linarith
  have "0 \<le> log 2 \<bar>real_of_int k\<bar>" using k1 by simp
  then have e0: "0 \<le> e" by (simp add: e_def)
  have "\<bar>real_of_int k\<bar> < 2 ^ mant_bits t"
    using assms by (metis of_int_abs of_int_less_numeral_power_cancel_iff)
  then have "log 2 \<bar>real_of_int k\<bar> < real (mant_bits t)"
    using k1 by (subst log_less_iff) (simp_all add: powr_realpow)
  then have e1: "e < int (mant_bits t)" unfolding e_def by linarith
  define n where "n = nat (int (mant_bits t) - 1 - e)"
  have j: "e - int (mant_bits t) + 1 = - int n" using e1 by (simp add: n_def)
  have ulp: "(2::real) powi (e - int (mant_bits t) + 1) = 1 / 2 ^ n"
    unfolding j by (simp add: power_int_minus_divide)
  have m: "max e (min_exp t) = e" using e0 min_exp_neg[of t] by simp
  have "real_of_int k * 2 ^ n = of_int (k * 2 ^ n)" by simp
  then have q: "round_half_even (real_of_int k * 2 ^ n) = k * 2 ^ n"
    by (simp only: round_half_even_of_int)
  show ?thesis
    using False
    by (simp add: round_to_float_def Let_def e_def[symmetric] m ulp q)
qed

lemma round_to_float_6: "round_to_float Float64 6 = 6"
  using round_to_float_of_int[of 6 Float64] by simp

text \<open>In binary64, \<open>2\<^sup>5\<^sup>3 + 1\<close> lies halfway between two numbers and rounds to \<open>2\<^sup>5\<^sup>3\<close>.\<close>

lemma round_to_float_absorbs: "round_to_float Float64 (2 ^ 53 + 1) = 2 ^ 53"
  by (subst round_to_float_eval[where e = 53]) (simp_all add: round_half_even_def Let_def)

lemma float_round_overflows: "float_round Float64 (2 ^ 1023 + 2 ^ 1023) = PosInf"
  unfolding float_round_def
  by (subst round_to_float_eval[where e = 1024]) (simp_all add: Let_def round_half_even_def)

lemma scalar_add_one_exact:
  assumes "\<not> is_integer t" "\<bar>k + 1\<bar> < 2 ^ mant_bits t"
  shows "scalar_add_one t (of_int k) = of_int k + 1"
  using assms round_to_float_of_int[of "k + 1" t] by (simp add: scalar_add_one_def)

lemma scalar_add_one_wraps:
  "scalar_add_one UInt8 255 = 0" "scalar_add_one Int16 32767 = - 32768"
  by (simp_all add: scalar_add_one_def wrap_int_def)

section \<open>Manual scaling bounds\<close>

text \<open>
  C8.  Manual bounds with \<open>vmin \<ge> vmax\<close> are rejected: the engine is left as it was.
  Hence every call of \<open>set_scaling_limits\<close> keeps the bounds ordered.
\<close>

theorem set_scaling_limits_rejects_invalid:
  "(\<not> lo < hi \<longrightarrow> set_scaling_limits ev h lo hi eng = Returned eng)
   \<and> (bounds_ordered eng \<longrightarrow> bounds_ordered (state_of (set_scaling_limits ev h lo hi eng)))"
  by (auto simp: set_scaling_limits_def bounds_ordered_def Let_def split: option.splits)

theorem set_scaling_limits_rejects_invalid_witness:
  "set_scaling_limits quiet_env (store_of rank2_example) 10 10 (engine_on ''linear'' (Some 1) (Some 2))
     = Returned (engine_on ''linear'' (Some 1) (Some 2))
   \<and> bounds_ordered (state_of (set_scaling_limits quiet_env (store_of rank2_example) 10 10
        (engine_on ''linear'' (Some 1) (Some 2))))
   \<and> vmax (state_of (set_scaling_limits quiet_env (store_of rank2_example) 0 5
        (engine_on ''linear'' (Some 1) (Some 2)))) = Some 5
   \<and> bounds_ordered (state_of (set_scaling_limits quiet_env (store_of rank2_example) 0 5
        (engine_on ''linear'' (Some 1) (Some 2))))"
proof -
  let ?e = "engine_on ''linear'' (Some 1) (Some 2)"
  have b: "bounds_ordered ?e" by (simp add: bounds_ordered_def engine_on_def)
  have n: "\<not> (10::real) < 10" by simp
  note t1 = set_scaling_limits_rejects_invalid[of 10 10 quiet_env "store_of rank2_example" ?e]
  note t2 = set_scaling_limits_rejects_invalid[of 0 5 quiet_env "store_of rank2_example" ?e]
  have 1: "set_scaling_limits quiet_env (store_of rank2_example) 10 10 ?e = Returned ?e"
    using t1 n by blast
  have 2: "bounds_ordered (state_of (set_scaling_limits quiet_env (store_of rank2_example) 10 10 ?e))"
    using t1 b by blast
  have 3: "bounds_ordered (state_of (set_scaling_limits quiet_env (store_of rank2_example) 0 5 ?e))"
    using t2 b by blast
  have 4: "vmax (state_of (set_scaling_limits quiet_env (store_of rank2_example) 0 5 ?e)) = Some 5"
    by (simp add: set_scaling_limits_def engine_on_def Let_def split: option.splits)
  show ?thesis using 1 2 3 4 by simp
qed

section \<open>Automatic scaling\<close>

lemma previous_index_in_range:
  assumes "0 \<le> q" "q \<le> 100" "0 < n"
  shows "nat \<lfloor>q / 100 * (real n - 1)\<rfloor> < n"
proof -
  have "q / 100 * (real n - 1) \<le> 1 * (real n - 1)"
    using assms by (intro mult_right_mono) auto
  then have "\<lfloor>q / 100 * (real n - 1)\<rfloor> \<le> \<lfloor>real n - 1\<rfloor>" by (intro floor_mono) simp
  also have "\<dots> = int n - 1" by linarith
  finally show ?thesis using assms(3) by linarith
qed

lemma np_percentile_constant:
  assumes "a \<noteq> []" "set a = {c}" "0 \<le> q" "q \<le> 100"
  shows "np_percentile a q = Inr c"
proof -
  let ?n = "length a"
  let ?p = "nat \<lfloor>q / 100 * (real ?n - 1)\<rfloor>"
  have n: "0 < ?n" using assms(1) by simp
  have p: "?p < ?n" using assms(3,4) n by (rule previous_index_in_range)
  have all: "sort a ! i = c" if "i < ?n" for i
  proof -
    have "sort a ! i \<in> set (sort a)" using that by (intro nth_mem) simp
    then show ?thesis using assms(2) by simp
  qed
  have "min (?p + 1) (?n - 1) \<le> ?n - 1" by simp
  then have "min (?p + 1) (?n - 1) < ?n" using n by linarith
  then show ?thesis
    using assms p all by (simp add: np_percentile_def Let_def)
qed

lemma np_percentile_defined:
  assumes "a \<noteq> []" "0 \<le> q" "q \<le> 100"
  shows "\<exists>v. np_percentile a q = Inr v"
  using assms by (simp add: np_percentile_def Let_def)

text \<open>
  The ladder of \<open>auto_scale\<close>: \<open>(0, 1)\<close> when there is no array or no finite value;
  otherwise the two percentiles of the finite values, their minimum and maximum when
  the percentiles are not in strict order, and the minimum and the minimum plus one,
  computed in the element type of the array, when these are not either.
\<close>

lemma auto_scale_cases:
  "(current_data eng = None \<longrightarrow> auto_scale h eng 0.5 99.5 = Inr (0, 1))
   \<and> (\<forall>r. current_data eng = Some r \<and> finite_vals (elems (cells h r)) = [] \<longrightarrow>
          auto_scale h eng 0.5 99.5 = Inr (0, 1))
   \<and> (\<forall>r. current_data eng = Some r \<and> finite_vals (elems (cells h r)) \<noteq> [] \<longrightarrow>
          (\<exists>p q. np_percentile (finite_vals (elems (cells h r))) 0.5 = Inr p
               \<and> np_percentile (finite_vals (elems (cells h r))) 99.5 = Inr q
               \<and> auto_scale h eng 0.5 99.5 =
                   Inr (if p < q then (p, q)
                        else if Min (set (finite_vals (elems (cells h r))))
                                  < Max (set (finite_vals (elems (cells h r))))
                             then (py_float (dtype (cells h r))
                                     (Min (set (finite_vals (elems (cells h r))))),
                                   py_float (dtype (cells h r))
                                     (Max (set (finite_vals (elems (cells h r))))))
                             else (py_float (dtype (cells h r))
                                     (Min (set (finite_vals (elems (cells h r))))),
                                   py_float (dtype (cells h r))
                                     (scalar_add_one (dtype (cells h r))
                                        (Min (set (finite_vals (elems (cells h r))))))))))"
proof (intro conjI allI impI)
  show "auto_scale h eng 0.5 99.5 = Inr (0, 1)" if "current_data eng = None"
    using that by (simp add: auto_scale_def)
next
  fix r assume "current_data eng = Some r \<and> finite_vals (elems (cells h r)) = []"
  then show "auto_scale h eng 0.5 99.5 = Inr (0, 1)" by (simp add: auto_scale_def)
next
  fix r assume a: "current_data eng = Some r \<and> finite_vals (elems (cells h r)) \<noteq> []"
  let ?v = "finite_vals (elems (cells h r))"
  let ?t = "dtype (cells h r)"
  from a have ne: "?v \<noteq> []" by simp
  obtain p where p: "np_percentile ?v 0.5 = Inr p"
    using np_percentile_defined[OF ne, of "0.5"] by auto
  obtain q where q: "np_percentile ?v 99.5 = Inr q"
    using np_percentile_defined[OF ne, of "99.5"] by auto
  have eq: "auto_scale h eng 0.5 99.5 =
      Inr (if p < q then (p, q)
           else if Min (set ?v) < Max (set ?v)
                then (py_float ?t (Min (set ?v)), py_float ?t (Max (set ?v)))
                else (py_float ?t (Min (set ?v)), py_float ?t (scalar_add_one ?t (Min (set ?v)))))"
    using a p q
    by (simp add: auto_scale_def Let_def not_less del: Min_ge_iff Max_le_iff Min_gr_iff Max_less_iff)
  show "\<exists>p q. np_percentile ?v 0.5 = Inr p \<and> np_percentile ?v 99.5 = Inr q
          \<and> auto_scale h eng 0.5 99.5 =
              Inr (if p < q then (p, q)
                   else if Min (set ?v) < Max (set ?v)
                        then (py_float ?t (Min (set ?v)), py_float ?t (Max (set ?v)))
                        else (py_float ?t (Min (set ?v)),
                              py_float ?t (scalar_add_one ?t (Min (set ?v)))))"
    using p q eq by blast
qed

text \<open>
  On a floating array whose finite values are not all equal the bounds are in strict
  order.  When the finite values all equal \<open>c\<close> the bounds are \<open>c\<close> and \<open>c + 1\<close>
  as the element type computes it, which is \<open>(k, k + 1)\<close> on a floating array for
  a small integer \<open>k\<close>.
\<close>

lemma auto_scale_ordered:
  assumes "current_data eng = Some r" "\<not> is_integer (dtype (cells h r))"
    and "finite_vals (elems (cells h r)) \<noteq> []"
    and "Min (set (finite_vals (elems (cells h r)))) < Max (set (finite_vals (elems (cells h r))))"
  shows "\<exists>lo hi. auto_scale h eng 0.5 99.5 = Inr (lo, hi) \<and> lo < hi"
proof -
  let ?v = "finite_vals (elems (cells h r))"
  let ?t = "dtype (cells h r)"
  have "\<exists>p q. np_percentile ?v 0.5 = Inr p \<and> np_percentile ?v 99.5 = Inr q
          \<and> auto_scale h eng 0.5 99.5 =
              Inr (if p < q then (p, q)
                   else if Min (set ?v) < Max (set ?v)
                        then (py_float ?t (Min (set ?v)), py_float ?t (Max (set ?v)))
                        else (py_float ?t (Min (set ?v)),
                              py_float ?t (scalar_add_one ?t (Min (set ?v)))))"
    using auto_scale_cases[of eng h, THEN conjunct2, THEN conjunct2, rule_format, of r]
      assms(1,3) by blast
  then obtain p q where eq: "auto_scale h eng 0.5 99.5 =
              Inr (if p < q then (p, q)
                   else if Min (set ?v) < Max (set ?v)
                        then (py_float ?t (Min (set ?v)), py_float ?t (Max (set ?v)))
                        else (py_float ?t (Min (set ?v)),
                              py_float ?t (scalar_add_one ?t (Min (set ?v)))))"
    by blast
  show ?thesis unfolding eq using assms(2,4) by (cases "p < q") (simp_all add: py_float_def)
qed

lemma auto_scale_of_constant:
  assumes "current_data eng = Some r" "finite_vals (elems (cells h r)) \<noteq> []"
    and "set (finite_vals (elems (cells h r))) = {c}"
  shows "auto_scale h eng 0.5 99.5
           = Inr (py_float (dtype (cells h r)) c,
                  py_float (dtype (cells h r)) (scalar_add_one (dtype (cells h r)) c))"
proof -
  let ?v = "finite_vals (elems (cells h r))"
  have p: "np_percentile ?v 0.5 = Inr c"
    using assms(2,3) by (intro np_percentile_constant) simp_all
  have q: "np_percentile ?v 99.5 = Inr c"
    using assms(2,3) by (intro np_percentile_constant) simp_all
  show ?thesis
    using assms p q by (simp add: auto_scale_def Let_def)
qed

lemma auto_scale_constant:
  assumes "current_data eng = Some r" "\<not> is_integer (dtype (cells h r))"
    and "finite_vals (elems (cells h r)) \<noteq> []"
    and "set (finite_vals (elems (cells h r))) = {of_int k}"
    and "\<bar>k + 1\<bar> < 2 ^ mant_bits (dtype (cells h r))"
  shows "auto_scale h eng 0.5 99.5 = Inr (of_int k, of_int k + 1)"
  using auto_scale_of_constant[OF assms(1,3,4)] assms(2) scalar_add_one_exact[OF assms(2,5)]
  by (simp add: py_float_def)

text \<open>
  C2.  \<open>auto_scale\<close> does not always return bounds in strict order.  When all finite
  values are equal, the last step of its ladder sets \<open>vmax = vmin + 1\<close>, a sum in the
  element type of the array.  For a float64 image of constant value \<open>2\<^sup>5\<^sup>3\<close> the sum
  is rounded back to \<open>2\<^sup>5\<^sup>3\<close>, and the bounds are \<open>(2\<^sup>5\<^sup>3, 2\<^sup>5\<^sup>3)\<close>; for a uint8
  image of constant value 255 the sum wraps around to 0, and the bounds are
  \<open>(255, 0)\<close>.
\<close>

theorem auto_scale_bounds_not_ordered:
  "auto_scale (store_of huge_constant_image) (engine_on ''linear'' None None) 0.5 99.5
     = Inr (2 ^ 53, 2 ^ 53)
   \<and> auto_scale (store_of saturated_image) (engine_on ''linear'' None None) 0.5 99.5
     = Inr (255, 0)"
proof
  let ?e = "engine_on ''linear'' None None"
  have c: "current_data ?e = Some 0" by (simp add: engine_on_def)
  have a: "scalar_add_one Float64 (2 ^ 53) = 2 ^ 53"
    using round_to_float_absorbs by (simp add: scalar_add_one_def)
  have h: "finite_vals (elems (cells (store_of huge_constant_image) 0)) \<noteq> []"
    "set (finite_vals (elems (cells (store_of huge_constant_image) 0))) = {2 ^ 53}"
    "dtype (cells (store_of huge_constant_image) 0) = Float64"
    by (simp_all add: store_of_def huge_constant_image_def)
  show "auto_scale (store_of huge_constant_image) ?e 0.5 99.5 = Inr (2 ^ 53, 2 ^ 53)"
    unfolding auto_scale_of_constant[OF c h(1,2)] h(3) a
    by (simp add: py_float_def)
  have f: "py_float UInt8 255 = 255" "py_float UInt8 0 = 0"
    using round_to_float_of_int[of 255 Float64] by (simp_all add: py_float_def round_to_float_def)
  have s: "finite_vals (elems (cells (store_of saturated_image) 0)) \<noteq> []"
    "set (finite_vals (elems (cells (store_of saturated_image) 0))) = {255}"
    "dtype (cells (store_of saturated_image) 0) = UInt8"
    by (simp_all add: store_of_def saturated_image_def)
  show "auto_scale (store_of saturated_image) ?e 0.5 99.5 = Inr (255, 0)"
    unfolding auto_scale_of_constant[OF c s(1,2)] s(3) scalar_add_one_wraps f ..
qed

lemma auto_scale_ramp_image:
  "auto_scale (store_of ramp_image) (engine_on ''linear'' None None) 0.5 99.5
     = Inr (101 / 100, 299 / 100)"
  by (simp add: auto_scale_def np_percentile_def engine_on_def store_of_def ramp_image_def Let_def)

section \<open>Histogram\<close>

lemma count_partition:
  assumes "\<forall>x\<in>set xs. \<exists>k<n. \<forall>i<n. P i x \<longleftrightarrow> i = k"
  shows "sum_list (map (\<lambda>i. length (filter (P i) xs)) [0..<n]) = length xs"
  using assms
proof (induction xs)
  case Nil
  then show ?case by simp
next
  case (Cons x xs)
  then obtain k where k: "k < n" "\<forall>i<n. P i x \<longleftrightarrow> i = k" by auto
  have one: "sum_list (map (\<lambda>i. if P i x then 1 else 0) [0..<n]) = (1::nat)"
  proof -
    have "map (\<lambda>i. if P i x then 1 else 0) [0..<n] = map (\<lambda>i. if i = k then 1 else (0::nat)) [0..<n]"
      using k(2) by (intro map_cong) auto
    also have "sum_list \<dots> = (\<Sum>i\<in>{0..<n}. if i = k then 1 else 0)"
      by (simp add: interv_sum_list_conv_sum_set_nat)
    also have "\<dots> = 1" using k(1) by simp
    finally show ?thesis .
  qed
  have "sum_list (map (\<lambda>i. length (filter (P i) (x # xs))) [0..<n])
      = sum_list (map (\<lambda>i. (if P i x then 1 else 0) + length (filter (P i) xs)) [0..<n])"
    by (intro arg_cong[where f = sum_list] map_cong) auto
  also have "\<dots> = sum_list (map (\<lambda>i. if P i x then 1 else 0) [0..<n])
        + sum_list (map (\<lambda>i. length (filter (P i) xs)) [0..<n])"
    by (rule sum_list_addf)
  finally show ?case using one Cons by simp
qed

lemma bin_of_value:
  fixes x first_edge last_edge :: real
  assumes n: "0 < n" and lt: "first_edge < last_edge"
    and lo: "first_edge \<le> x" and hi: "x \<le> last_edge"
  defines "e \<equiv> \<lambda>i. first_edge + real i * (last_edge - first_edge) / real n"
  shows "\<exists>k<n. \<forall>i<n. (e i \<le> x \<and> (if i = n - 1 then x \<le> e (i + 1) else x < e (i + 1))) \<longleftrightarrow> i = k"
proof -
  define w where "w = (last_edge - first_edge) / real n"
  have w: "0 < w" using n lt by (simp add: w_def)
  define t where "t = (x - first_edge) / w"
  have t0: "0 \<le> t" using lo w by (simp add: t_def)
  have e: "e i = first_edge + real i * w" for i by (simp add: e_def w_def)
  have en: "e n = last_edge" using n by (simp add: e_def)
  have le_iff: "e i \<le> x \<longleftrightarrow> real i \<le> t" for i
    using w by (simp add: e t_def pos_le_divide_eq algebra_simps)
  have less_iff: "x < e i \<longleftrightarrow> t < real i" for i
    using w by (simp add: e t_def pos_divide_less_eq algebra_simps)
  have ge_iff: "x \<le> e i \<longleftrightarrow> t \<le> real i" for i
    using w by (simp add: e t_def pos_divide_le_eq algebra_simps)
  have tn: "t \<le> real n" using hi en ge_iff[of n] by simp
  show ?thesis
  proof (cases "x = last_edge")
    case True
    then have "real n \<le> t" using en le_iff[of n] by simp
    then have tn': "t = real n" using tn by simp
    have "(e i \<le> x \<and> (if i = n - 1 then x \<le> e (i + 1) else x < e (i + 1))) \<longleftrightarrow> i = n - 1"
      if "i < n" for i
    proof (cases "i = n - 1")
      case True
      then have "i + 1 = n" using n by simp
      then show ?thesis using True tn' le_iff[of i] \<open>x = last_edge\<close> en that by simp
    next
      case False
      then have "real (i + 1) < real n" using that by simp
      then show ?thesis using False less_iff[of "i + 1"] tn' by simp
    qed
    then show ?thesis using n by (intro exI[of _ "n - 1"]) simp
  next
    case False
    then have "x < last_edge" using hi by simp
    then have tn': "t < real n" using en less_iff[of n] by simp
    define k where "k = nat \<lfloor>t\<rfloor>"
    have k1: "real k \<le> t" using t0 by (simp add: k_def)
    have k2: "t < real k + 1" using t0 unfolding k_def by linarith
    have kn: "k < n" using k1 tn' by linarith
    have "(e i \<le> x \<and> (if i = n - 1 then x \<le> e (i + 1) else x < e (i + 1))) \<longleftrightarrow> i = k"
      if "i < n" for i
    proof -
      have a: "(real i \<le> t \<and> t < real i + 1) \<longleftrightarrow> i = k"
      proof
        assume "real i \<le> t \<and> t < real i + 1"
        then have "real i < real k + 1" "real k < real i + 1" using k1 k2 by linarith+
        then show "i = k" by linarith
      next
        assume "i = k" then show "real i \<le> t \<and> t < real i + 1" using k1 k2 by simp
      qed
      have b: "x \<le> e (i + 1) \<longleftrightarrow> x < e (i + 1)" if "i = n - 1"
      proof -
        have "i + 1 = n" using that n by simp
        then show ?thesis using en \<open>x < last_edge\<close> hi by simp
      qed
      have "(e i \<le> x \<and> (if i = n - 1 then x \<le> e (i + 1) else x < e (i + 1)))
            \<longleftrightarrow> (e i \<le> x \<and> x < e (i + 1))"
        using b by auto
      also have "\<dots> \<longleftrightarrow> (real i \<le> t \<and> t < real i + 1)"
        using le_iff[of i] less_iff[of "i + 1"] by (simp add: add.commute)
      finally show ?thesis using a by simp
    qed
    then show ?thesis using kn by blast
  qed
qed

lemma np_histogram_counts:
  assumes "1 \<le> bins" "a \<noteq> []" "histogram_error ev t a bins = None"
  shows "\<exists>counts bin_edges. np_histogram ev t a bins = Inr (counts, bin_edges)
           \<and> length counts = nat bins \<and> length bin_edges = nat bins + 1
           \<and> sum_list counts = length a"
proof -
  define n where "n = nat bins"
  have n: "0 < n" using assms(1) by (simp add: n_def)
  define mn where "mn = Min (set a)"
  define mx where "mx = Max (set a)"
  define first_edge where "first_edge = (if mn = mx then mn - 1 / 2 else mn)"
  define last_edge where "last_edge = (if mn = mx then mx + 1 / 2 else mx)"
  define e where "e = (\<lambda>i. first_edge + real i * (last_edge - first_edge) / real n)"
  define bin_edges where "bin_edges = map e [0..<n] @ [last_edge]"
  define P where "P = (\<lambda>i x. bin_edges ! i \<le> x \<and>
      (if i = n - 1 then x \<le> bin_edges ! (i + 1) else x < bin_edges ! (i + 1)))"
  define counts where "counts = map (\<lambda>i. length (filter (P i) a)) [0..<n]"
  have mnmx: "mn \<le> mx" using assms(2) by (simp add: mn_def mx_def)
  have lt: "first_edge < last_edge" using mnmx by (simp add: first_edge_def last_edge_def)
  have en: "e n = last_edge" using n by (simp add: e_def)
  have nth: "bin_edges ! i = e i" if "i \<le> n" for i
    using that en by (cases "i = n") (simp_all add: bin_edges_def nth_append)
  have range: "first_edge \<le> x \<and> x \<le> last_edge" if "x \<in> set a" for x
  proof -
    have "mn \<le> x" "x \<le> mx" using that by (simp_all add: mn_def mx_def)
    then show ?thesis by (simp add: first_edge_def last_edge_def)
  qed
  have part: "\<forall>x\<in>set a. \<exists>k<n. \<forall>i<n. P i x \<longleftrightarrow> i = k"
  proof
    fix x assume x: "x \<in> set a"
    from bin_of_value[OF n lt] range[OF x]
    obtain k where k: "k < n"
      "\<forall>i<n. (e i \<le> x \<and> (if i = n - 1 then x \<le> e (i + 1) else x < e (i + 1))) \<longleftrightarrow> i = k"
      unfolding e_def by blast
    have "P i x \<longleftrightarrow> i = k" if "i < n" for i
    proof -
      have e1: "bin_edges ! i = e i" and e2: "bin_edges ! (i + 1) = e (i + 1)"
        using that by (simp_all add: nth)
      show ?thesis unfolding P_def e1 e2 using k(2) that by blast
    qed
    then show "\<exists>k<n. \<forall>i<n. P i x \<longleftrightarrow> i = k" using k(1) by blast
  qed
  have sum: "sum_list counts = length a"
    unfolding counts_def using part by (rule count_partition)
  have "np_histogram ev t a bins = Inr (counts, bin_edges)"
    using assms
    by (simp add: np_histogram_def Let_def counts_def P_def bin_edges_def e_def
          first_edge_def last_edge_def mn_def mx_def n_def)
  moreover have "length counts = nat bins" by (simp add: counts_def n_def)
  moreover have "length bin_edges = nat bins + 1" by (simp add: bin_edges_def n_def)
  ultimately show ?thesis using sum by blast
qed

lemma np_histogram_raises:
  assumes "1 \<le> bins" "histogram_error ev t a bins = Some e"
  shows "np_histogram ev t a bins = Inl e"
  using assms by (simp add: np_histogram_def)

lemma bar_heights:
  "map (\<lambda>b. snd (snd b))
     (map (\<lambda>i. (bin_edges ! i, bin_edges ! (i + 1) - bin_edges ! i, counts ! i)) [0..<length counts])
   = counts"
proof -
  have "map (\<lambda>b. snd (snd b))
          (map (\<lambda>i. (bin_edges ! i, bin_edges ! (i + 1) - bin_edges ! i, counts ! i)) [0..<length counts])
        = map (\<lambda>i. counts ! i) [0..<length counts]"
    by simp
  also have "\<dots> = counts" by (rule map_nth)
  finally show ?thesis .
qed

text \<open>
  C9.  For a bin count of at least one: when the array has no finite sample,
  \<open>update_histogram\<close> draws no bar; when it has and \<open>np.histogram\<close> lays out the
  bins, the heights of the bars add up to the number of finite samples; when
  \<open>np.histogram\<close> raises, so does \<open>update_histogram\<close>, and no bar is drawn.  So
  the heights of the bars add up to the number of finite samples whenever
  \<open>update_histogram\<close> returns.
\<close>

theorem histogram_counts_sum:
  assumes "1 \<le> bins"
  shows "(finite_vals (elems (cells h r)) = [] \<longrightarrow>
            (\<exists>w'. update_histogram ev h (Some r) bins w = Returned w' \<and> bars w' = []))
     \<and> (finite_vals (elems (cells h r)) \<noteq> []
          \<and> histogram_error ev (dtype (cells h r)) (finite_vals (elems (cells h r))) bins = None \<longrightarrow>
            (\<exists>w'. update_histogram ev h (Some r) bins w = Returned w'
               \<and> sum_list (map (\<lambda>b. snd (snd b)) (bars w'))
                   = length (finite_vals (elems (cells h r)))
               \<and> length (bars w') = nat bins))
     \<and> (\<forall>e. finite_vals (elems (cells h r)) \<noteq> []
          \<and> histogram_error ev (dtype (cells h r)) (finite_vals (elems (cells h r))) bins = Some e \<longrightarrow>
            update_histogram ev h (Some r) bins w
              = Raised e (w\<lparr>hist_current_data := Some r, bars := []\<rparr>))
     \<and> (\<forall>w'. update_histogram ev h (Some r) bins w = Returned w' \<longrightarrow>
            sum_list (map (\<lambda>b. snd (snd b)) (bars w'))
              = length (finite_vals (elems (cells h r))))"
proof -
  let ?v = "finite_vals (elems (cells h r))"
  let ?t = "dtype (cells h r)"
  have empty: "update_histogram ev h (Some r) bins w
                 = Returned (w\<lparr>hist_current_data := Some r, bars := []\<rparr>)" if "?v = []"
    using that by (simp add: update_histogram_def)
  have ok: "\<exists>w'. update_histogram ev h (Some r) bins w = Returned w'
               \<and> sum_list (map (\<lambda>b. snd (snd b)) (bars w')) = length ?v
               \<and> length (bars w') = nat bins"
    if ne: "?v \<noteq> []" and none: "histogram_error ev ?t ?v bins = None"
  proof -
    from np_histogram_counts[OF assms ne none]
    obtain counts bin_edges where c:
      "np_histogram ev ?t ?v bins = Inr (counts, bin_edges)"
      "length counts = nat bins" "sum_list counts = length ?v"
      by blast
    show ?thesis
      using ne c bar_heights[of bin_edges counts] by (simp add: update_histogram_def Let_def)
  qed
  have bad: "update_histogram ev h (Some r) bins w
               = Raised e (w\<lparr>hist_current_data := Some r, bars := []\<rparr>)"
    if ne: "?v \<noteq> []" and some: "histogram_error ev ?t ?v bins = Some e" for e
    using ne np_histogram_raises[OF assms some] by (simp add: update_histogram_def Let_def)
  have ret: "sum_list (map (\<lambda>b. snd (snd b)) (bars w')) = length ?v"
    if r: "update_histogram ev h (Some r) bins w = Returned w'" for w'
  proof (cases "?v = []")
    case True
    then show ?thesis using empty r by auto
  next
    case False
    show ?thesis
    proof (cases "histogram_error ev ?t ?v bins")
      case None
      then show ?thesis using ok[OF False] r by auto
    next
      case (Some e)
      then show ?thesis using bad[OF False] r by auto
    qed
  qed
  show ?thesis
  proof (intro conjI allI impI)
    show "\<exists>w'. update_histogram ev h (Some r) bins w = Returned w' \<and> bars w' = []" if "?v = []"
      using empty[OF that] by simp
    show "\<exists>w'. update_histogram ev h (Some r) bins w = Returned w'
               \<and> sum_list (map (\<lambda>b. snd (snd b)) (bars w')) = length ?v
               \<and> length (bars w') = nat bins"
      if "?v \<noteq> [] \<and> histogram_error ev ?t ?v bins = None"
      using that ok by blast
    show "update_histogram ev h (Some r) bins w
               = Raised e (w\<lparr>hist_current_data := Some r, bars := []\<rparr>)"
      if "?v \<noteq> [] \<and> histogram_error ev ?t ?v bins = Some e" for e
      using that bad by blast
    show "sum_list (map (\<lambda>b. snd (snd b)) (bars w')) = length ?v"
      if "update_histogram ev h (Some r) bins w = Returned w'" for w'
      using that by (rule ret)
  qed
qed

lemma range_of_wide_image:
  "finite_vals (elems (cells (store_of wide_image) 0)) = [- (2 ^ 1023), 2 ^ 1023]"
  "Max {- (2 ^ 1023), 2 ^ 1023 :: real} - Min {- (2 ^ 1023), 2 ^ 1023 :: real}
     = 2 ^ 1023 + 2 ^ 1023"
  by (simp_all add: store_of_def wide_image_def)

lemma overflow_env_on_wide_image:
  "histogram_error overflow_env Float64 [- (2 ^ 1023), 2 ^ 1023] bins = Some ValueError"
  unfolding overflow_env_def quiet_env_def
  by (simp only: env.simps range_of_wide_image(2) float_round_overflows is_integer.simps
        list.simps if_False sample.simps)

theorem histogram_counts_sum_witness:
  "(\<exists>w'. update_histogram quiet_env (store_of nan_image) (Some 0) 2 empty_widget = Returned w'
         \<and> bars w' = [])
   \<and> (\<exists>w'. update_histogram quiet_env (store_of ramp_image) (Some 0) 2 empty_widget = Returned w'
         \<and> sum_list (map (\<lambda>b. snd (snd b)) (bars w')) = 2 \<and> length (bars w') = 2)
   \<and> update_histogram overflow_env (store_of wide_image) (Some 0) 2 empty_widget
       = Raised ValueError \<lparr>hist_current_data = Some 0, bars = []\<rparr>
   \<and> sum_list (map (\<lambda>b. snd (snd b))
        (bars \<lparr>hist_current_data = Some 0, bars = [(1, 1, 1), (2, 1, 1 :: nat)]\<rparr>)) = (2::nat)"
proof -
  have b: "(1::int) \<le> 2" by simp
  have f1: "finite_vals (elems (cells (store_of ramp_image) 0)) = [3, 1]"
    by (simp add: store_of_def ramp_image_def)
  have f2: "finite_vals (elems (cells (store_of nan_image) 0)) = []"
    by (simp add: store_of_def nan_image_def)
  have q: "histogram_error quiet_env t a n = None" for t a n
    by (simp add: quiet_env_def)
  note T1 = histogram_counts_sum[OF b, of "store_of nan_image" 0 quiet_env empty_widget]
  note T2 = histogram_counts_sum[OF b, of "store_of ramp_image" 0 quiet_env empty_widget]
  note T3 = histogram_counts_sum[OF b, of "store_of wide_image" 0 overflow_env empty_widget]
  have 1: "\<exists>w'. update_histogram quiet_env (store_of nan_image) (Some 0) 2 empty_widget = Returned w'
         \<and> bars w' = []"
    using T1[THEN conjunct1, rule_format, OF f2] .
  have h2: "finite_vals (elems (cells (store_of ramp_image) 0)) \<noteq> []
      \<and> histogram_error quiet_env (dtype (cells (store_of ramp_image) 0))
          (finite_vals (elems (cells (store_of ramp_image) 0))) 2 = None"
    using f1 q by simp
  have 2: "\<exists>w'. update_histogram quiet_env (store_of ramp_image) (Some 0) 2 empty_widget = Returned w'
         \<and> sum_list (map (\<lambda>b. snd (snd b)) (bars w')) = 2 \<and> length (bars w') = 2"
    using T2[THEN conjunct2, THEN conjunct1, rule_format, OF h2] unfolding f1
    by (simp add: numeral_2_eq_2)
  have h3: "finite_vals (elems (cells (store_of wide_image) 0)) \<noteq> []
      \<and> histogram_error overflow_env (dtype (cells (store_of wide_image) 0))
          (finite_vals (elems (cells (store_of wide_image) 0))) 2 = Some ValueError"
    unfolding range_of_wide_image(1) using overflow_env_on_wide_image[of 2]
    by (simp add: store_of_def wide_image_def)
  have 3: "update_histogram overflow_env (store_of wide_image) (Some 0) 2 empty_widget
       = Raised ValueError \<lparr>hist_current_data = Some 0, bars = []\<rparr>"
    using T3[THEN conjunct2, THEN conjunct2, THEN conjunct1, rule_format, OF h3]
    by (simp add: empty_widget_def)
  have r4: "update_histogram quiet_env (store_of ramp_image) (Some 0) 2 empty_widget
     = Returned \<lparr>hist_current_data = Some 0, bars = [(1, 1, 1), (2, 1, 1)]\<rparr>"
    by (simp add: update_histogram_def np_histogram_def store_of_def ramp_image_def
          empty_widget_def quiet_env_def Let_def upt_rec nth_append)
  have 4: "sum_list (map (\<lambda>b. snd (snd b))
        (bars \<lparr>hist_current_data = Some 0, bars = [(1, 1, 1), (2, 1, 1 :: nat)]\<rparr>)) = (2::nat)"
    using T2[THEN conjunct2, THEN conjunct2, THEN conjunct2, rule_format, OF r4] f1 by simp
  show ?thesis using 1 2 3 4 by (intro conjI)
qed

text \<open>
  The heights do not add up to the number of finite samples for every array: the two
  elements of \<open>wide_image\<close> are finite, their range overflows binary64,
  \<open>np.histogram\<close> raises ValueError and \<open>update_histogram\<close> with it, having
  cleared the bars.
\<close>

theorem histogram_of_wide_image_raises:
  "update_histogram overflow_env (store_of wide_image) (Some 0) 100 empty_widget
     = Raised ValueError \<lparr>hist_current_data = Some 0, bars = []\<rparr>
   \<and> length (finite_vals (elems wide_image)) = 2
   \<and> bars (state_of (update_histogram overflow_env (store_of wide_image) (Some 0) 100
                       empty_widget)) = []"
proof -
  have "np_histogram overflow_env Float64 [- (2 ^ 1023), 2 ^ 1023] 100 = Inl ValueError"
    using overflow_env_on_wide_image[of 100] by (intro np_histogram_raises) simp_all
  then have u: "update_histogram overflow_env (store_of wide_image) (Some 0) 100 empty_widget
     = Raised ValueError \<lparr>hist_current_data = Some 0, bars = []\<rparr>"
    by (simp add: update_histogram_def store_of_def wide_image_def empty_widget_def)
  have "length (finite_vals (elems wide_image)) = 2" by (simp add: wide_image_def)
  then show ?thesis unfolding u by simp
qed

lemma histogram_of_ramp_image:
  "update_histogram quiet_env (store_of ramp_image) (Some 0) 2 empty_widget
     = Returned \<lparr>hist_current_data = Some 0, bars = [(1, 1, 1), (2, 1, 1)]\<rparr>"
  by (simp add: update_histogram_def np_histogram_def store_of_def ramp_image_def
        empty_widget_def quiet_env_def Let_def upt_rec nth_append)

lemma histogram_without_bins_raises:
  "update_histogram ev (store_of ramp_image) (Some 0) 0 empty_widget
     = Raised ValueError \<lparr>hist_current_data = Some 0, bars = []\<rparr>"
  by (simp add: update_histogram_def np_histogram_def store_of_def ramp_image_def
        empty_widget_def Let_def)

section \<open>The scaling transform\<close>

lemma arsinh_5_gt_1: "1 < arsinh (5::real)"
proof -
  have "exp (1::real) \<le> 3" by (rule exp_le)
  also have "(3::real) < 5 + sqrt (5\<^sup>2 + 1)"
  proof -
    have "0 \<le> sqrt ((5::real)\<^sup>2 + 1)" by simp
    then show ?thesis by linarith
  qed
  finally have "exp (1::real) < 5 + sqrt (5\<^sup>2 + 1)" .
  then have "ln (exp (1::real)) < ln (5 + sqrt (5\<^sup>2 + 1))"
    by (subst ln_less_cancel_iff) (auto intro: add_pos_nonneg)
  then show ?thesis by (simp add: arsinh_real_def)
qed

lemma log10_100: "log 10 (100::real) = 2"
proof -
  have "log 10 ((10::real) ^ 2) = 2" by (subst log_pow_cancel) simp_all
  then show ?thesis by simp
qed

text \<open>
  C1.  The output of the scaling transform is not always within \<open>[0, 1]\<close>.  When the
  transformed channel is constant, the modes \<open>'log'\<close>, \<open>'sqrt'\<close> and \<open>'asinh'\<close>
  return it without normalising it: a constant image of value 5 with its own automatic
  bounds \<open>(5, 6)\<close> is mapped to \<open>arsinh 5 > 1\<close> everywhere, and an image that lies
  above the upper bound is mapped to 2 everywhere by \<open>'log'\<close> with bounds \<open>(0, 99)\<close>
  and by \<open>'sqrt'\<close> with bounds \<open>(0, 4)\<close>.
\<close>

theorem scaling_of_constant_channel_exceeds_one:
  "auto_scale (store_of constant_image) (engine_on ''asinh'' None None) 0.5 99.5 = Inr (5, 6)
   \<and> apply_scaling_to_channel (engine_on ''asinh'' (Some 5) (Some 6)) constant_image
       = Inr \<lparr>dtype = Float64, shape = [2, 2],
              elems = [Finite (arsinh 5), Finite (arsinh 5), Finite (arsinh 5), Finite (arsinh 5)]\<rparr>
   \<and> apply_scaling (engine_on ''asinh'' (Some 5) (Some 6)) constant_image
       = Inr \<lparr>dtype = Float64, shape = [2, 2],
              elems = [Finite (arsinh 5), Finite (arsinh 5), Finite (arsinh 5), Finite (arsinh 5)]\<rparr>
   \<and> 1 < arsinh (5::real)
   \<and> apply_scaling_to_channel (engine_on ''log'' (Some 0) (Some 99)) bright_image
       = Inr \<lparr>dtype = Float64, shape = [2, 2], elems = [Finite 2, Finite 2, Finite 2, Finite 2]\<rparr>
   \<and> apply_scaling_to_channel (engine_on ''sqrt'' (Some 0) (Some 4)) bright_image
       = Inr \<lparr>dtype = Float64, shape = [2, 2], elems = [Finite 2, Finite 2, Finite 2, Finite 2]\<rparr>"
proof (intro conjI)
  show "auto_scale (store_of constant_image) (engine_on ''asinh'' None None) 0.5 99.5 = Inr (5, 6)"
    by (simp add: auto_scale_def np_percentile_def engine_on_def store_of_def constant_image_def
          Let_def py_float_def scalar_add_one_def round_to_float_6)
  show "apply_scaling_to_channel (engine_on ''asinh'' (Some 5) (Some 6)) constant_image
       = Inr \<lparr>dtype = Float64, shape = [2, 2],
              elems = [Finite (arsinh 5), Finite (arsinh 5), Finite (arsinh 5), Finite (arsinh 5)]\<rparr>"
    by (simp add: apply_scaling_to_channel_def normalize_min_max_def np_clip_def np_min_def
          np_max_def s_min2_def s_max2_def scaled_like_def float_result_def engine_on_def
          constant_image_def)
  show "apply_scaling (engine_on ''asinh'' (Some 5) (Some 6)) constant_image
       = Inr \<lparr>dtype = Float64, shape = [2, 2],
              elems = [Finite (arsinh 5), Finite (arsinh 5), Finite (arsinh 5), Finite (arsinh 5)]\<rparr>"
    by (simp add: apply_scaling_def apply_scaling_to_channel_def normalize_min_max_def np_clip_def
          np_min_def np_max_def s_min2_def s_max2_def scaled_like_def float_result_def
          engine_on_def constant_image_def ndim_def)
  show "1 < arsinh (5::real)" by (rule arsinh_5_gt_1)
  show "apply_scaling_to_channel (engine_on ''log'' (Some 0) (Some 99)) bright_image
       = Inr \<lparr>dtype = Float64, shape = [2, 2], elems = [Finite 2, Finite 2, Finite 2, Finite 2]\<rparr>"
    by (simp add: apply_scaling_to_channel_def normalize_min_max_def np_clip_def np_min_def
          np_max_def s_min2_def s_max2_def s_sub_def scaled_like_def float_result_def
          engine_on_def bright_image_def log10_100)
  show "apply_scaling_to_channel (engine_on ''sqrt'' (Some 0) (Some 4)) bright_image
       = Inr \<lparr>dtype = Float64, shape = [2, 2], elems = [Finite 2, Finite 2, Finite 2, Finite 2]\<rparr>"
    by (simp add: apply_scaling_to_channel_def normalize_min_max_def np_clip_def np_min_def
          np_max_def s_min2_def s_max2_def s_sub_def scaled_like_def float_result_def
          engine_on_def bright_image_def)
qed

subsection \<open>What the transform guarantees\<close>

lemma fold_s_min2_Finite:
  "fold s_min2 (map Finite ys) (Finite y) = Finite (fold min ys y)"
  by (induction ys arbitrary: y) (simp_all add: s_min2_def min_def)

lemma fold_s_max2_Finite:
  "fold s_max2 (map Finite ys) (Finite y) = Finite (fold max ys y)"
  by (induction ys arbitrary: y) (simp_all add: s_max2_def max_def)

lemma np_min_Finite: "ys \<noteq> [] \<Longrightarrow> np_min (map Finite ys) = Inr (Finite (Min (set ys)))"
proof (cases ys)
  case Nil
  assume "ys \<noteq> []" then show ?thesis using Nil by simp
next
  case (Cons a list)
  have "fold min list a = Min (set (a # list))" by (rule Min.set_eq_fold[symmetric])
  then show ?thesis using Cons by (simp add: np_min_def fold_s_min2_Finite)
qed

lemma np_max_Finite: "ys \<noteq> [] \<Longrightarrow> np_max (map Finite ys) = Inr (Finite (Max (set ys)))"
proof (cases ys)
  case Nil
  assume "ys \<noteq> []" then show ?thesis using Nil by simp
next
  case (Cons a list)
  have "fold max list a = Max (set (a # list))" by (rule Max.set_eq_fold[symmetric])
  then show ?thesis using Cons by (simp add: np_max_def fold_s_max2_Finite)
qed

lemma normalize_min_max_Finite:
  assumes "ys \<noteq> []"
  shows "\<exists>res. normalize_min_max data (map Finite ys) = Inr res
           \<and> (Min (set ys) < Max (set ys) \<longrightarrow> list_all in_unit_interval (elems res))
           \<and> (\<not> Min (set ys) < Max (set ys) \<longrightarrow> elems res = map Finite ys)"
proof (cases "Min (set ys) < Max (set ys)")
  case True
  let ?lo = "Min (set ys)" and ?hi = "Max (set ys)"
  have u: "in_unit_interval (s_div (s_sub (Finite y) (Finite ?lo)) (s_sub (Finite ?hi) (Finite ?lo)))"
    if "y \<in> set ys" for y
  proof -
    have "?lo \<le> y" "y \<le> ?hi" using that by simp_all
    then have "0 \<le> (y - ?lo) / (?hi - ?lo) \<and> (y - ?lo) / (?hi - ?lo) \<le> 1"
      using True by (simp add: divide_le_eq)
    then show ?thesis using True by (simp add: s_sub_def)
  qed
  show ?thesis
    using assms True u
    by (simp add: normalize_min_max_def np_min_Finite np_max_Finite scaled_like_def
          list_all_iff del: Min_less_iff Max_less_iff Min_gr_iff)
next
  case False
  then show ?thesis
    using assms
    by (simp add: normalize_min_max_def np_min_Finite np_max_Finite scaled_like_def
          del: Min_less_iff Max_less_iff Min_gr_iff)
qed


lemma clip_Finite:
  "clip_hi (Some hi) (clip_lo (Some lo) (Finite v)) = Finite (min (max v lo) hi)"
  by simp

lemma normalized_unless_constant:
  assumes "zs \<noteq> []"
  shows "\<exists>res. normalize_min_max data (map Finite zs) = Inr res
           \<and> ((\<exists>x\<in>set (elems res). \<exists>y\<in>set (elems res). x \<noteq> y) \<longrightarrow>
                list_all in_unit_interval (elems res))"
proof -
  from normalize_min_max_Finite[OF assms, of data] obtain res where
    res: "normalize_min_max data (map Finite zs) = Inr res"
      "Min (set zs) < Max (set zs) \<longrightarrow> list_all in_unit_interval (elems res)"
      "\<not> Min (set zs) < Max (set zs) \<longrightarrow> elems res = map Finite zs"
    by blast
  have "list_all in_unit_interval (elems res)"
    if ne: "\<exists>x\<in>set (elems res). \<exists>y\<in>set (elems res). x \<noteq> y"
  proof (rule ccontr)
    assume "\<not> list_all in_unit_interval (elems res)"
    then have c: "\<not> Min (set zs) < Max (set zs)" using res(2) by blast
    then have e: "elems res = map Finite zs" using res(3) by blast
    have "z = Min (set zs)" if "z \<in> set zs" for z
    proof -
      have "Min (set zs) \<le> z" "z \<le> Max (set zs)" using that by simp_all
      then show ?thesis using c by linarith
    qed
    then have "\<forall>x\<in>set zs. \<forall>y\<in>set zs. x = y" by metis
    then show False using ne unfolding e by auto
  qed
  then show ?thesis using res(1) by blast
qed

text \<open>
  What the scaling transform does guarantee, for finite data and bounds in strict order:
  the linear branch always returns values in \<open>[0, 1]\<close>, and the other three modes do
  so unless their result is constant.
\<close>

lemma linear_scaling_in_unit_interval:
  assumes "vmin eng = Some lo" "vmax eng = Some hi" "lo < hi" "elems data = map Finite ys"
    and "scaling_mode eng \<noteq> ''log''" "scaling_mode eng \<noteq> ''sqrt''" "scaling_mode eng \<noteq> ''asinh''"
  shows "\<exists>res. apply_scaling_to_channel eng data = Inr res
           \<and> list_all in_unit_interval (elems res)"
proof -
  have u: "in_unit_interval (s_div (s_sub (Finite (min (max v lo) hi)) (Finite lo)) (Finite (hi - lo)))"
    for v
  proof -
    have "lo \<le> min (max v lo) hi" "min (max v lo) hi \<le> hi" using assms(3) by simp_all
    then have "0 \<le> (min (max v lo) hi - lo) / (hi - lo) \<and> (min (max v lo) hi - lo) / (hi - lo) \<le> 1"
      using assms(3) by (simp add: divide_le_eq)
    then show ?thesis using assms(3) by (simp add: s_sub_def)
  qed
  have "apply_scaling_to_channel eng data
      = Inr (scaled_like data
               (map (\<lambda>v. s_div (s_sub (Finite (min (max v lo) hi)) (Finite lo)) (Finite (hi - lo))) ys))"
    using assms
    by (simp add: apply_scaling_to_channel_def linear_scale_def np_clip_def comp_def)
  then show ?thesis using u by (simp add: scaled_like_def list_all_iff)
qed

lemma nonlinear_scaling_in_unit_interval:
  assumes "vmin eng = Some lo" "vmax eng = Some hi" "lo < hi" "elems data = map Finite ys"
    and "ys \<noteq> []"
    and "scaling_mode eng = ''log'' \<or> scaling_mode eng = ''sqrt'' \<or> scaling_mode eng = ''asinh''"
  shows "\<exists>res. apply_scaling_to_channel eng data = Inr res
           \<and> ((\<exists>x\<in>set (elems res). \<exists>y\<in>set (elems res). x \<noteq> y) \<longrightarrow>
                list_all in_unit_interval (elems res))"
proof -
  have clipped: "np_clip (elems data) (vmin eng) (vmax eng)
      = Inr (map (\<lambda>v. Finite (min (max v lo) hi)) ys)"
    using assms(1,2,4) by (simp add: np_clip_def comp_def)
  have pos: "0 < min (max v lo) hi - lo + 1" for v
  proof -
    have "lo \<le> min (max v lo) hi" using assms(3) by simp
    then show ?thesis by linarith
  qed
  consider (log) "scaling_mode eng = ''log''" | (sqrt) "scaling_mode eng = ''sqrt''"
    | (asinh) "scaling_mode eng = ''asinh''"
    using assms(6) by blast
  then show ?thesis
  proof cases
    case log
    let ?zs = "map (\<lambda>v. log 10 (min (max v lo) hi - lo + 1)) ys"
    have "apply_scaling_to_channel eng data = normalize_min_max data (map Finite ?zs)"
      using log assms(1) clipped pos
      by (simp add: apply_scaling_to_channel_def s_sub_def comp_def)
    then show ?thesis using normalized_unless_constant[of ?zs data] assms(5) by simp
  next
    case sqrt
    let ?zs = "map (\<lambda>v. sqrt \<bar>min (max v lo) hi - lo\<bar>) ys"
    have "apply_scaling_to_channel eng data = normalize_min_max data (map Finite ?zs)"
      using sqrt assms(1) clipped
      by (simp add: apply_scaling_to_channel_def s_sub_def comp_def)
    then show ?thesis using normalized_unless_constant[of ?zs data] assms(5) by simp
  next
    case asinh
    let ?zs = "map (\<lambda>v. arsinh (min (max v lo) hi)) ys"
    have "apply_scaling_to_channel eng data = normalize_min_max data (map Finite ?zs)"
      using asinh assms(1) clipped
      by (simp add: apply_scaling_to_channel_def comp_def)
    then show ?thesis using normalized_unless_constant[of ?zs data] assms(5) by simp
  qed
qed

lemma nonlinear_scaling_of_empty_channel_raises:
  assumes "elems data = []" "vmin eng = Some lo" "vmax eng = Some hi"
    and "scaling_mode eng = ''log'' \<or> scaling_mode eng = ''sqrt'' \<or> scaling_mode eng = ''asinh''"
  shows "apply_scaling_to_channel eng data = Inl ValueError"
  using assms
  by (auto simp: apply_scaling_to_channel_def np_clip_def normalize_min_max_def np_min_def)


text \<open>The array operations on a small example.\<close>

lemma flips_of_square_image:
  "np_flip_last square_image
     = Inr \<lparr>dtype = Int16, shape = [2, 2], elems = [Finite 2, Finite 1, Finite 4, Finite 3]\<rparr>"
  "np_flip_second_last square_image
     = Inr \<lparr>dtype = Int16, shape = [2, 2], elems = [Finite 3, Finite 4, Finite 1, Finite 2]\<rparr>"
  by (simp_all add: np_flip_last_def np_flip_second_last_def square_image_def ndim_def
        chunks.simps Let_def)

lemma flip_of_rank1_raises: "np_flip_second_last rank1_example = Inl AxisError"
  by (simp add: np_flip_second_last_def rank1_example_def ndim_def)

lemma transpose_of_rgb_example:
  "transpose_120 rgb_example
     = Inr \<lparr>dtype = Float64, shape = [1, 2, 3],
            elems = [Finite 1, Finite 3, Finite 5, Finite 2, Finite 4, Finite 6]\<rparr>"
  by (simp add: transpose_120_def rgb_example_def upt_rec)

section \<open>Transformations of the window\<close>

lemma auto_scale_default_defined:
  "\<exists>lo hi. auto_scale h eng 0.5 99.5 = Inr (lo, hi)"
proof (cases "current_data eng")
  case None
  then show ?thesis by (simp add: auto_scale_def)
next
  case (Some r)
  show ?thesis
  proof (cases "finite_vals (elems (cells h r)) = []")
    case True
    then show ?thesis using Some by (simp add: auto_scale_def)
  next
    case False
    obtain p where p: "np_percentile (finite_vals (elems (cells h r))) 0.5 = Inr p"
      using np_percentile_defined[OF False, of "0.5"] by auto
    obtain q where q: "np_percentile (finite_vals (elems (cells h r))) 99.5 = Inr q"
      using np_percentile_defined[OF False, of "99.5"] by auto
    show ?thesis using Some False p q by (simp add: auto_scale_def Let_def)
  qed
qed

lemma update_histogram_returns:
  assumes "1 \<le> bins" "histogram_error ev = (\<lambda>_ _ _. None)"
  shows "\<exists>w'. update_histogram ev h data bins w = Returned w'"
proof (cases data)
  case None
  then show ?thesis by (simp add: update_histogram_def)
next
  case (Some r)
  show ?thesis
  proof (cases "finite_vals (elems (cells h r)) = []")
    case True
    then show ?thesis using Some by (simp add: update_histogram_def)
  next
    case False
    have "histogram_error ev (dtype (cells h r)) (finite_vals (elems (cells h r))) bins = None"
      using assms(2) by simp
    from np_histogram_counts[OF assms(1) False this] obtain counts bin_edges where
      "np_histogram ev (dtype (cells h r)) (finite_vals (elems (cells h r))) bins
         = Inr (counts, bin_edges)" by blast
    then show ?thesis using Some False by (simp add: update_histogram_def Let_def)
  qed
qed

lemma set_data_state:
  "\<exists>lo hi. state_of (set_data ev h (Some r) eng)
              = eng\<lparr>current_data := Some r, vmin := Some lo, vmax := Some hi\<rparr>"
proof -
  obtain lo hi where a: "auto_scale h (eng\<lparr>current_data := Some r\<rparr>) 0.5 99.5 = Inr (lo, hi)"
    using auto_scale_default_defined by blast
  show ?thesis
    using a by (auto simp: set_data_def Let_def split: option.splits)
qed

lemma show_transformed_fields:
  "heap (state_of (show_transformed ev data s)) = snd (alloc data (heap s))
   \<and> fits_manager (state_of (show_transformed ev data s)) = fits_manager s
   \<and> current_hdu_index (state_of (show_transformed ev data s)) = current_hdu_index s
   \<and> original_data (state_of (show_transformed ev data s)) = original_data s
   \<and> rotation_angle (state_of (show_transformed ev data s)) = rotation_angle s
   \<and> flip_horizontal (state_of (show_transformed ev data s)) = flip_horizontal s
   \<and> flip_vertical (state_of (show_transformed ev data s)) = flip_vertical s
   \<and> current_data (image_engine (state_of (show_transformed ev data s))) = Some (next_ref (heap s))
   \<and> scaling_mode (image_engine (state_of (show_transformed ev data s)))
       = scaling_mode (image_engine s)"
proof -
  define h' where "h' = snd (alloc data (heap s))"
  define d where "d = next_ref (heap s)"
  define e0 where "e0 = (image_engine s)\<lparr>current_data := Some d\<rparr>"
  have al: "alloc data (heap s) = (d, h')" by (simp add: alloc_def h'_def d_def)
  obtain lo hi where sd: "state_of (set_data ev h' (Some d) e0)
      = e0\<lparr>current_data := Some d, vmin := Some lo, vmax := Some hi\<rparr>"
    using set_data_state by blast
  show ?thesis
    using sd
    by (cases "set_data ev h' (Some d) e0")
       (auto simp: show_transformed_def al Let_def e0_def h'_def[symmetric] d_def[symmetric]
             split: outcome.splits option.splits)
qed

lemma show_transformed_bounds:
  assumes "show_transformed ev data s = Returned s'"
    and "vmin (image_engine s) = Some a" and "vmax (image_engine s) = Some b"
  shows "vmin (image_engine s') = Some a \<and> vmax (image_engine s') = Some b"
  using assms
  by (auto simp: show_transformed_def alloc_def Let_def split: outcome.splits option.splits)


lemma start_from_original_cases:
  "(\<exists>r. original_data s = Some r \<and> start_from_original s = Inr (cells (heap s) r, s))
   \<or> (original_data s = None \<and> canonical s = None
        \<and> (\<exists>out. start_from_original s = Inl out \<and> state_of out = s))
   \<or> (original_data s = None
        \<and> (\<exists>r. get_data (fits_manager s) (current_hdu_index s) = Inr (Some r)
              \<and> start_from_original s
                  = Inr (cells (heap s) r,
                         s\<lparr>heap := snd (alloc (cells (heap s) r) (heap s)),
                           original_data := Some (next_ref (heap s))\<rparr>)))"
  by (auto simp: start_from_original_def canonical_def alloc_def split: option.splits sum.splits)

lemma apply_transformations_shape:
  "apply_transformations ev s = Returned s
   \<or> (\<exists>e. apply_transformations ev s = Raised e s)
   \<or> (current_data (image_engine s) \<noteq> None
       \<and> (\<exists>data s1. start_from_original s = Inr (data, s1)
             \<and> (apply_transformations ev s = Returned s1
                 \<or> (\<exists>e. apply_transformations ev s = Raised e s1)
                 \<or> (\<exists>rt t. rotate_block ev (rotation_angle s1) data = Inr rt
                       \<and> flip_block (flip_horizontal s1) (flip_vertical s1) rt = Inr t
                       \<and> apply_transformations ev s = show_transformed ev t s1))))"
proof (cases "current_data (image_engine s) = None")
  case True
  then show ?thesis by (simp add: apply_transformations_def)
next
  case False
  show ?thesis
  proof (cases "start_from_original s")
    case (Inl out)
    then have "state_of out = s" using start_from_original_cases[of s] by auto
    then have "out = Returned s \<or> (\<exists>e. out = Raised e s)" by (cases out) auto
    then show ?thesis using False Inl by (auto simp: apply_transformations_def)
  next
    case (Inr p)
    obtain data s1 where p: "p = (data, s1)" by (cases p)
    show ?thesis
      using False Inr p
      by (auto simp: apply_transformations_def split: sum.splits)
  qed
qed


lemma extends_refl: "extends s s"
  by (simp add: extends_def)

lemma extends_trans: "extends s s1 \<Longrightarrow> extends s1 s2 \<Longrightarrow> extends s s2"
  unfolding extends_def by (metis (no_types, lifting) le_trans less_le_trans)

lemma extends_show: "extends s (state_of (show_transformed ev data s))"
  using show_transformed_fields[of ev data s]
  by (simp add: extends_def alloc_def)

lemma hdu_refs_ok_mono:
  "hdu_refs_ok h fm \<Longrightarrow> next_ref h \<le> next_ref h' \<Longrightarrow> hdu_refs_ok h' fm"
  unfolding hdu_refs_ok_def
  by (auto simp: list_all_iff split: option.splits)

lemma start_from_original_Inr:
  assumes "start_from_original s = Inr (data, s1)"
  shows "extends s s1"
    and "rotation_angle s1 = rotation_angle s"
    and "flip_horizontal s1 = flip_horizontal s"
    and "flip_vertical s1 = flip_vertical s"
    and "image_engine s1 = image_engine s"
    and "canonical s = Some data"
    and "store_ok s \<Longrightarrow> store_ok s1"
    and "store_ok s \<Longrightarrow>
           \<exists>orig. original_data s1 = Some orig \<and> orig < next_ref (heap s1) \<and> cells (heap s1) orig = data"
proof -
  consider (kept) r where "original_data s = Some r" "data = cells (heap s) r" "s1 = s"
    | (captured) r where "original_data s = None"
        "get_data (fits_manager s) (current_hdu_index s) = Inr (Some r)"
        "data = cells (heap s) r"
        "s1 = s\<lparr>heap := snd (alloc (cells (heap s) r) (heap s)),
                 original_data := Some (next_ref (heap s))\<rparr>"
    using start_from_original_cases[of s] assms by auto
  note c = this
  show "extends s s1" using c by cases (auto simp: extends_def alloc_def)
  show "rotation_angle s1 = rotation_angle s" using c by cases auto
  show "flip_horizontal s1 = flip_horizontal s" using c by cases auto
  show "flip_vertical s1 = flip_vertical s" using c by cases auto
  show "image_engine s1 = image_engine s" using c by cases auto
  show "canonical s = Some data" using c by cases (auto simp: canonical_def)
  show "store_ok s1" if "store_ok s"
    using c that
    by cases (auto simp: store_ok_def alloc_def intro: hdu_refs_ok_mono)
  show "\<exists>orig. original_data s1 = Some orig \<and> orig < next_ref (heap s1) \<and> cells (heap s1) orig = data"
    if "store_ok s"
    using c that by cases (auto simp: store_ok_def alloc_def)
qed

lemma apply_transformations_extends: "extends s (state_of (apply_transformations ev s))"
proof -
  consider "state_of (apply_transformations ev s) = s"
    | data s1 where "start_from_original s = Inr (data, s1)"
        "state_of (apply_transformations ev s) = s1"
    | data s1 t where "start_from_original s = Inr (data, s1)"
        "state_of (apply_transformations ev s) = state_of (show_transformed ev t s1)"
    using apply_transformations_shape[of ev s] by auto
  then show ?thesis
  proof cases
    case 1
    then show ?thesis by (simp add: extends_refl)
  next
    case 2
    then show ?thesis using start_from_original_Inr(1) by simp
  next
    case 3
    have "extends s s1" using 3(1) by (rule start_from_original_Inr(1))
    then show ?thesis unfolding 3(2) using extends_show by (rule extends_trans)
  qed
qed

lemma apply_transformations_keeps:
  "rotation_angle (state_of (apply_transformations ev s)) = rotation_angle s
   \<and> flip_horizontal (state_of (apply_transformations ev s)) = flip_horizontal s
   \<and> flip_vertical (state_of (apply_transformations ev s)) = flip_vertical s"
  using apply_transformations_shape[of ev s]
  by (auto simp: show_transformed_fields dest: start_from_original_Inr(2,3,4))

lemma apply_transformations_bounds:
  assumes "apply_transformations ev s = Returned s'"
    and "vmin (image_engine s) = Some a" and "vmax (image_engine s) = Some b"
  shows "vmin (image_engine s') = Some a \<and> vmax (image_engine s') = Some b"
proof -
  consider "s' = s"
    | data s1 where "start_from_original s = Inr (data, s1)" "s' = s1"
    | data s1 t where "start_from_original s = Inr (data, s1)"
        "show_transformed ev t s1 = Returned s'"
    using apply_transformations_shape[of ev s] assms(1) by auto
  then show ?thesis
  proof cases
    case 1
    then show ?thesis using assms by simp
  next
    case 2
    then show ?thesis using assms start_from_original_Inr(5)[OF 2(1)] by simp
  next
    case 3
    show ?thesis
      using show_transformed_bounds[OF 3(2)] assms(2,3) start_from_original_Inr(5)[OF 3(1)]
      by simp
  qed
qed

lemma apply_transformations_store:
  assumes "store_ok s"
  shows "store_ok (state_of (apply_transformations ev s))"
    and "canonical (state_of (apply_transformations ev s)) = canonical s"
proof -
  let ?s' = "state_of (apply_transformations ev s)"
  consider (same) "?s' = s"
    | (captured) data s1 where "start_from_original s = Inr (data, s1)" "?s' = s1"
    | (shown) data s1 t where "start_from_original s = Inr (data, s1)"
        "?s' = state_of (show_transformed ev t s1)"
    using apply_transformations_shape[of ev s] by auto
  note c = this
  have ok1: "store_ok s1 \<and> canonical s1 = canonical s"
    if st: "start_from_original s = Inr (data, s1)" for data s1
  proof -
    from start_from_original_Inr(8)[OF st assms] obtain orig where
      "original_data s1 = Some orig" "cells (heap s1) orig = data" by blast
    then have "canonical s1 = Some data" by (simp add: canonical_def)
    then show ?thesis
      using start_from_original_Inr(6,7)[OF st] assms by simp
  qed
  have ok2: "store_ok (state_of (show_transformed ev t s1))
      \<and> canonical (state_of (show_transformed ev t s1)) = canonical s1"
    if "store_ok s1" "original_data s1 \<noteq> None" for t s1
    using that show_transformed_fields[of ev t s1]
    by (auto simp: store_ok_def canonical_def alloc_def intro: hdu_refs_ok_mono)
  have orig: "original_data s1 \<noteq> None"
    if st: "start_from_original s = Inr (data, s1)" for data s1
    using start_from_original_Inr(8)[OF st assms] by auto
  show "store_ok ?s'"
    using c assms ok1 ok2 orig by cases auto
  show "canonical ?s' = canonical s"
    using c assms ok1 ok2 orig by cases auto
qed


lemma apply_transformations_with_canonical:
  assumes "current_data (image_engine s) \<noteq> None" "canonical s = Some c"
  shows "\<exists>s1. start_from_original s = Inr (c, s1)
           \<and> apply_transformations ev s =
               (case rotate_block ev (rotation_angle s) c of
                  Inl e \<Rightarrow> Returned s1
                | Inr rt \<Rightarrow>
                    (case flip_block (flip_horizontal s) (flip_vertical s) rt of
                       Inl e \<Rightarrow> Raised e s1
                     | Inr t \<Rightarrow> show_transformed ev t s1))"
proof -
  obtain data s1 where st: "start_from_original s = Inr (data, s1)"
    using start_from_original_cases[of s] assms(2) by auto
  have "data = c" using start_from_original_Inr(6)[OF st] assms(2) by simp
  then show ?thesis
    using st assms(1) start_from_original_Inr(2,3,4)[OF st]
    by (auto simp: apply_transformations_def split: sum.splits)
qed

lemma apply_transformations_captures:
  assumes "store_ok s" "current_data (image_engine s) \<noteq> None" "canonical s = Some c"
  shows "\<exists>orig. original_data (state_of (apply_transformations ev s)) = Some orig
           \<and> cells (heap (state_of (apply_transformations ev s))) orig = c"
proof -
  have "canonical (state_of (apply_transformations ev s)) = Some c"
    using apply_transformations_store(2)[OF assms(1)] assms(3) by simp
  moreover have "original_data (state_of (apply_transformations ev s)) \<noteq> None"
  proof -
    from apply_transformations_with_canonical[OF assms(2,3), of ev]
    obtain s1 where st: "start_from_original s = Inr (c, s1)"
      and ap: "apply_transformations ev s =
               (case rotate_block ev (rotation_angle s) c of
                  Inl e \<Rightarrow> Returned s1
                | Inr rt \<Rightarrow>
                    (case flip_block (flip_horizontal s) (flip_vertical s) rt of
                       Inl e \<Rightarrow> Raised e s1
                     | Inr t \<Rightarrow> show_transformed ev t s1))"
      by blast
    have s1: "start_from_original s = Inr (c, s1)"
      "state_of (apply_transformations ev s) = s1
       \<or> (\<exists>t. state_of (apply_transformations ev s) = state_of (show_transformed ev t s1))"
      using st apply simp
      unfolding ap by (auto split: sum.splits)
    have "original_data s1 \<noteq> None" using start_from_original_Inr(8)[OF s1(1) assms(1)] by auto
    then show ?thesis using s1(2) by (auto simp: show_transformed_fields)
  qed
  ultimately show ?thesis by (auto simp: canonical_def split: option.splits)
qed

lemma apply_transformations_displays:
  assumes "store_ok s" "current_data (image_engine s) \<noteq> None" "canonical s = Some c"
    and "transform_array ev (rotation_angle s) (flip_horizontal s) (flip_vertical s) c = Inr t"
  shows "\<exists>d. current_data (image_engine (state_of (apply_transformations ev s))) = Some d
           \<and> cells (heap (state_of (apply_transformations ev s))) d = t
           \<and> next_ref (heap s) \<le> d
           \<and> original_data (state_of (apply_transformations ev s)) \<noteq> Some d"
proof -
  from assms(4) obtain rt where rt: "rotate_block ev (rotation_angle s) c = Inr rt"
    "flip_block (flip_horizontal s) (flip_vertical s) rt = Inr t"
    by (auto simp: transform_array_def split: sum.splits)
  from apply_transformations_with_canonical[OF assms(2,3), of ev] rt
  obtain s1 where s1: "start_from_original s = Inr (c, s1)"
    "apply_transformations ev s = show_transformed ev t s1" by auto
  from start_from_original_Inr(8)[OF s1(1) assms(1)] obtain orig where
    o: "original_data s1 = Some orig" "orig < next_ref (heap s1)" by blast
  have "next_ref (heap s) \<le> next_ref (heap s1)"
    using start_from_original_Inr(1)[OF s1(1)] by (simp add: extends_def)
  then show ?thesis
    using o show_transformed_fields[of ev t s1] unfolding s1(2)
    by (auto simp: alloc_def)
qed

lemma perform_unfold:
  "perform ev x s =
     (if current_data (image_engine s) = None then Returned s
      else apply_transformations ev
             (case x of
                Rotate angle \<Rightarrow> s\<lparr>rotation_angle := angle mod 360\<rparr>
              | FlipHorizontal \<Rightarrow> s\<lparr>flip_horizontal := \<not> flip_horizontal s\<rparr>
              | FlipVertical \<Rightarrow> s\<lparr>flip_vertical := \<not> flip_vertical s\<rparr>))"
  by (cases x) (simp_all add: rotate_image_def flip_horizontal_image_def flip_vertical_image_def)

lemma perform_extends: "extends s (state_of (perform ev x s))"
proof (cases "current_data (image_engine s) = None")
  case True
  then show ?thesis by (simp add: perform_unfold extends_refl)
next
  case False
  show ?thesis
  proof (cases x)
    case (Rotate angle)
    then show ?thesis
      using False apply_transformations_extends[of "s\<lparr>rotation_angle := angle mod 360\<rparr>" ev]
      by (simp add: perform_unfold extends_def)
  next
    case FlipHorizontal
    then show ?thesis
      using False apply_transformations_extends[of "s\<lparr>flip_horizontal := \<not> flip_horizontal s\<rparr>" ev]
      by (simp add: perform_unfold extends_def)
  next
    case FlipVertical
    then show ?thesis
      using False apply_transformations_extends[of "s\<lparr>flip_vertical := \<not> flip_vertical s\<rparr>" ev]
      by (simp add: perform_unfold extends_def)
  qed
qed

lemma store_ok_fields [simp]:
  "store_ok (s\<lparr>rotation_angle := a\<rparr>) = store_ok s"
  "store_ok (s\<lparr>flip_horizontal := b\<rparr>) = store_ok s"
  "store_ok (s\<lparr>flip_vertical := b\<rparr>) = store_ok s"
  by (auto simp: store_ok_def split: option.splits)

lemma canonical_fields [simp]:
  "canonical (s\<lparr>rotation_angle := a\<rparr>) = canonical s"
  "canonical (s\<lparr>flip_horizontal := b\<rparr>) = canonical s"
  "canonical (s\<lparr>flip_vertical := b\<rparr>) = canonical s"
  by (auto simp: canonical_def split: option.splits sum.splits)

lemma perform_store:
  assumes "store_ok s"
  shows "store_ok (state_of (perform ev x s)) \<and> canonical (state_of (perform ev x s)) = canonical s"
  using assms
  by (cases x) (simp_all add: perform_unfold apply_transformations_store)

lemma perform_captures:
  assumes "store_ok s" "current_data (image_engine s) \<noteq> None" "canonical s = Some c"
  shows "\<exists>orig. original_data (state_of (perform ev x s)) = Some orig
           \<and> cells (heap (state_of (perform ev x s))) orig = c"
proof (cases x)
  case (Rotate angle)
  then show ?thesis
    using assms apply_transformations_captures[of "s\<lparr>rotation_angle := angle mod 360\<rparr>" c ev]
    by (auto simp: perform_unfold)
next
  case FlipHorizontal
  then show ?thesis
    using assms apply_transformations_captures[of "s\<lparr>flip_horizontal := \<not> flip_horizontal s\<rparr>" c ev]
    by (auto simp: perform_unfold)
next
  case FlipVertical
  then show ?thesis
    using assms apply_transformations_captures[of "s\<lparr>flip_vertical := \<not> flip_vertical s\<rparr>" c ev]
    by (auto simp: perform_unfold)
qed

lemma perform_bounds:
  assumes "perform ev x s = Returned s'"
    and "vmin (image_engine s) = Some a" and "vmax (image_engine s) = Some b"
  shows "vmin (image_engine s') = Some a \<and> vmax (image_engine s') = Some b"
proof (cases "current_data (image_engine s) = None")
  case True
  then show ?thesis using assms by (auto simp: perform_unfold)
next
  case False
  show ?thesis
  proof (cases x)
    case (Rotate angle)
    then show ?thesis
      using False assms
        apply_transformations_bounds[of ev "s\<lparr>rotation_angle := angle mod 360\<rparr>" s' a b]
      by (auto simp: perform_unfold)
  next
    case FlipHorizontal
    then show ?thesis
      using False assms
        apply_transformations_bounds[of ev "s\<lparr>flip_horizontal := \<not> flip_horizontal s\<rparr>" s' a b]
      by (auto simp: perform_unfold)
  next
    case FlipVertical
    then show ?thesis
      using False assms
        apply_transformations_bounds[of ev "s\<lparr>flip_vertical := \<not> flip_vertical s\<rparr>" s' a b]
      by (auto simp: perform_unfold)
  qed
qed

lemma perform_all_extends: "extends s (perform_all ev xs s)"
proof (induction xs arbitrary: s)
  case Nil
  then show ?case by (simp add: extends_refl)
next
  case (Cons x xs)
  have "extends s (state_of (perform ev x s))" by (rule perform_extends)
  then show ?case using Cons by (auto intro: extends_trans)
qed

lemma perform_all_store:
  "store_ok s \<Longrightarrow>
     store_ok (perform_all ev xs s) \<and> canonical (perform_all ev xs s) = canonical s"
proof (induction xs arbitrary: s)
  case Nil
  then show ?case by simp
next
  case (Cons x xs)
  then show ?case using perform_store[of s ev x] by simp
qed

lemma perform_all_captures:
  assumes "store_ok s" "current_data (image_engine s) \<noteq> None" "canonical s = Some c" "xs \<noteq> []"
  shows "\<exists>orig. original_data (perform_all ev xs s) = Some orig
           \<and> cells (heap (perform_all ev xs s)) orig = c"
proof -
  obtain x ys where xs: "xs = x # ys" using assms(4) by (cases xs) auto
  let ?s1 = "state_of (perform ev x s)"
  from perform_captures[OF assms(1,2,3), of ev x] obtain orig where
    o: "original_data ?s1 = Some orig" "cells (heap ?s1) orig = c" by blast
  have ok: "store_ok ?s1" using perform_store[OF assms(1)] by simp
  then have lt: "orig < next_ref (heap ?s1)" using o(1) by (simp add: store_ok_def)
  have "extends ?s1 (perform_all ev ys ?s1)" by (rule perform_all_extends)
  then have "original_data (perform_all ev ys ?s1) = Some orig
      \<and> cells (heap (perform_all ev ys ?s1)) orig = cells (heap ?s1) orig"
    using o(1) lt by (simp add: extends_def)
  then show ?thesis using o(2) xs by simp
qed

subsection \<open>Scaling bounds across a transformation\<close>

lemma update_display_linear_2d:
  assumes "render ev = (\<lambda>_. None)" "current_data eng = Some r" "ndim (cells h r) = 2"
    and "scaling_mode eng = ''linear''" "vmin eng \<noteq> None" "vmax eng \<noteq> None"
  shows "update_display ev h eng = None"
  using assms
  by (auto simp: update_display_def prepare_data_for_display_def reduce_for_display_def
        apply_scaling_def apply_scaling_to_channel_def linear_scale_def np_clip_def
        split: option.splits sum.splits)

lemma show_transformed_returns_2d:
  assumes "render ev = (\<lambda>_. None)" "ndim data = 2" "scaling_mode (image_engine s) = ''linear''"
    and "histogram_error ev = (\<lambda>_ _ _. None)"
  shows "\<exists>s'. show_transformed ev data s = Returned s'"
proof -
  define h' where "h' = snd (alloc data (heap s))"
  define d where "d = next_ref (heap s)"
  define e0 where "e0 = (image_engine s)\<lparr>current_data := Some d\<rparr>"
  have al: "alloc data (heap s) = (d, h')" by (simp add: alloc_def h'_def d_def)
  have cd: "ndim (cells h' d) = 2" using assms(2) by (simp add: h'_def d_def alloc_def)
  obtain lo hi where a: "auto_scale h' (e0\<lparr>current_data := Some d\<rparr>) 0.5 99.5 = Inr (lo, hi)"
    using auto_scale_default_defined by blast
  have u: "update_display ev h' eng = None"
    if "current_data eng = Some d" "scaling_mode eng = ''linear''" "vmin eng \<noteq> None" "vmax eng \<noteq> None"
    for eng
    using update_display_linear_2d[OF assms(1) that(1) cd that(2,3,4)] .
  have sd: "set_data ev h' (Some d) e0
      = Returned (e0\<lparr>current_data := Some d, vmin := Some lo, vmax := Some hi\<rparr>)"
    using a u[of "e0\<lparr>current_data := Some d, vmin := Some lo, vmax := Some hi\<rparr>"] assms(3)
    by (simp add: set_data_def Let_def e0_def)
  obtain w' where w: "update_histogram ev h' (Some d) 100 (histogram_widget s) = Returned w'"
    using update_histogram_returns[of 100 ev h' "Some d" "histogram_widget s"] assms(4) by auto
  have u': "update_display ev h'
        (image_engine s\<lparr>current_data := Some d, vmin := Some x, vmax := Some y\<rparr>) = None" for x y
    using assms(3) by (intro u) simp_all
  have u'': "update_display ev h' (image_engine s\<lparr>current_data := Some d\<rparr>) = None"
    if "vmin (image_engine s) \<noteq> None" "vmax (image_engine s) \<noteq> None"
    using assms(3) that by (intro u) simp_all
  show ?thesis
    using sd w u' u'' unfolding e0_def
    by (auto simp: show_transformed_def al Let_def split: option.splits)
qed

lemma half_turn_of_square_image:
  "transform_array half_turn_env 180 False False square_image
     = Inr \<lparr>dtype = Int16, shape = [2, 2],
            elems = [Finite 32767, Finite 32767, Finite 32767, Finite 32766]\<rparr>"
  by (simp add: transform_array_def rotate_block_def rotate_data_def flip_block_def
        preserve_dtype_def astype_def astype_val_def py_trunc_def iinfo_min_def iinfo_max_def
        half_turn_env_def square_image_def ndim_def)

lemma loaded_window_facts:
  "store_ok loaded_window"
  "canonical loaded_window = Some square_image"
  "current_data (image_engine loaded_window) \<noteq> None"
  "vmin (image_engine loaded_window) = Some 1"
  "vmax (image_engine loaded_window) = Some 4"
  "flip_horizontal loaded_window = False"
  "flip_vertical loaded_window = False"
  by (simp_all add: loaded_window_def store_ok_def hdu_refs_ok_def canonical_def get_data_def
        hdulist_item_def store_of_def engine_on_def)

lemma half_turn_of_loaded_window_returns:
  "\<exists>s'. perform half_turn_env (Rotate 180) loaded_window = Returned s'"
proof -
  let ?s = "loaded_window\<lparr>rotation_angle := 180 mod 360\<rparr>"
  let ?t = "\<lparr>dtype = Int16, shape = [2, 2],
            elems = [Finite 32767, Finite 32767, Finite 32767, Finite 32766]\<rparr>"
  have c: "current_data (image_engine ?s) \<noteq> None" "canonical ?s = Some square_image"
    using loaded_window_facts by simp_all
  have r: "rotation_angle ?s = 180" "flip_horizontal ?s = False" "flip_vertical ?s = False"
    using loaded_window_facts by simp_all
  from half_turn_of_square_image obtain rt where
    rt: "rotate_block half_turn_env 180 square_image = Inr rt"
        "flip_block False False rt = Inr ?t"
    by (auto simp: transform_array_def split: sum.splits)
  from apply_transformations_with_canonical[OF c, of half_turn_env]
  obtain s1 where s1: "start_from_original ?s = Inr (square_image, s1)"
    "apply_transformations half_turn_env ?s = show_transformed half_turn_env ?t s1"
    using rt r by auto
  have m: "scaling_mode (image_engine s1) = ''linear''"
    using start_from_original_Inr(5)[OF s1(1)] by (simp add: loaded_window_def engine_on_def)
  have "\<exists>s'. show_transformed half_turn_env ?t s1 = Returned s'"
    using m by (intro show_transformed_returns_2d) (simp_all add: half_turn_env_def ndim_def)
  then show ?thesis using s1(2) c(1) by (simp add: rotate_image_def)
qed

text \<open>
  C7.  A rotation or flip that completes leaves the scaling bounds as they were: when
  \<open>vmin\<close> and \<open>vmax\<close> are set, \<open>apply_transformations\<close>, \<open>rotate_image\<close> and the
  two flips return with the same bounds.
\<close>

theorem transformations_keep_bounds:
  assumes "vmin (image_engine s) = Some a" and "vmax (image_engine s) = Some b"
  shows "(\<forall>s'. apply_transformations ev s = Returned s' \<longrightarrow>
            vmin (image_engine s') = Some a \<and> vmax (image_engine s') = Some b)
         \<and> (\<forall>x s'. perform ev x s = Returned s' \<longrightarrow>
              vmin (image_engine s') = Some a \<and> vmax (image_engine s') = Some b)"
  using assms apply_transformations_bounds perform_bounds by blast

theorem transformations_keep_bounds_witness:
  "\<exists>s'. perform half_turn_env (Rotate 180) loaded_window = Returned s'
        \<and> vmin (image_engine s') = Some 1 \<and> vmax (image_engine s') = Some 4"
proof -
  obtain s' where s': "perform half_turn_env (Rotate 180) loaded_window = Returned s'"
    using half_turn_of_loaded_window_returns by blast
  have "vmin (image_engine s') = Some 1 \<and> vmax (image_engine s') = Some 4"
    using transformations_keep_bounds[OF loaded_window_facts(4,5), of half_turn_env,
            THEN conjunct2, rule_format, OF s'] .
  then show ?thesis using s' by blast
qed

subsection \<open>The canonical array\<close>

text \<open>
  C3.  A rotation or flip never writes to an array that exists: it only allocates.  Once
  \<open>original_data\<close> is set, no sequence of rotations and flips changes the reference or
  the array it denotes, and when it is unset the first transformation sets it to a copy of
  the array of the current HDU; so after any such sequence it holds the array first
  captured.  Each update displays a newly allocated array, computed from the canonical
  array and the rotation and flip settings alone.
\<close>

theorem canonical_array_never_overwritten:
  assumes "store_ok s"
  shows "canonical (perform_all ev xs s) = canonical s
    \<and> (\<forall>r. original_data s = Some r \<longrightarrow>
          original_data (perform_all ev xs s) = Some r
          \<and> cells (heap (perform_all ev xs s)) r = cells (heap s) r)
    \<and> (\<forall>r<next_ref (heap s). cells (heap (perform_all ev xs s)) r = cells (heap s) r)
    \<and> (\<forall>c. canonical s = Some c \<and> current_data (image_engine s) \<noteq> None \<and> xs \<noteq> [] \<longrightarrow>
          (\<exists>orig. original_data (perform_all ev xs s) = Some orig
                \<and> cells (heap (perform_all ev xs s)) orig = c))
    \<and> (\<forall>c t. canonical s = Some c \<and> current_data (image_engine s) \<noteq> None
            \<and> transform_array ev (rotation_angle s) (flip_horizontal s) (flip_vertical s) c = Inr t \<longrightarrow>
          (\<exists>d. current_data (image_engine (state_of (apply_transformations ev s))) = Some d
              \<and> cells (heap (state_of (apply_transformations ev s))) d = t
              \<and> next_ref (heap s) \<le> d
              \<and> original_data (state_of (apply_transformations ev s)) \<noteq> Some d))"
proof (intro conjI allI impI)
  show "canonical (perform_all ev xs s) = canonical s"
    using perform_all_store[OF assms] by simp
  have ex: "extends s (perform_all ev xs s)" by (rule perform_all_extends)
  show "cells (heap (perform_all ev xs s)) r = cells (heap s) r" if "r < next_ref (heap s)" for r
    using ex that by (simp add: extends_def)
  show "original_data (perform_all ev xs s) = Some r" if "original_data s = Some r" for r
    using ex that by (simp add: extends_def)
  show "cells (heap (perform_all ev xs s)) r = cells (heap s) r" if "original_data s = Some r" for r
  proof -
    have "r < next_ref (heap s)" using assms that by (simp add: store_ok_def)
    then show ?thesis using ex by (simp add: extends_def)
  qed
next
  fix c
  assume "canonical s = Some c \<and> current_data (image_engine s) \<noteq> None \<and> xs \<noteq> []"
  then show "\<exists>orig. original_data (perform_all ev xs s) = Some orig
                \<and> cells (heap (perform_all ev xs s)) orig = c"
    using perform_all_captures[OF assms, of c xs ev] by blast
next
  fix c t
  assume "canonical s = Some c \<and> current_data (image_engine s) \<noteq> None
            \<and> transform_array ev (rotation_angle s) (flip_horizontal s) (flip_vertical s) c = Inr t"
  then show "\<exists>d. current_data (image_engine (state_of (apply_transformations ev s))) = Some d
              \<and> cells (heap (state_of (apply_transformations ev s))) d = t
              \<and> next_ref (heap s) \<le> d
              \<and> original_data (state_of (apply_transformations ev s)) \<noteq> Some d"
    using apply_transformations_displays[OF assms, of c ev t] by blast
qed

theorem canonical_array_never_overwritten_witness:
  "canonical (perform_all half_turn_env [Rotate 180, FlipHorizontal] loaded_window)
     = Some square_image
   \<and> cells (heap (perform_all half_turn_env [Rotate 180, FlipHorizontal] loaded_window)) 0
       = square_image
   \<and> (\<exists>orig. original_data (perform_all half_turn_env [Rotate 180, FlipHorizontal] loaded_window)
                = Some orig
         \<and> cells (heap (perform_all half_turn_env [Rotate 180, FlipHorizontal] loaded_window)) orig
             = square_image)
   \<and> (\<exists>d. current_data (image_engine (state_of (apply_transformations half_turn_env loaded_window)))
             = Some d
         \<and> cells (heap (state_of (apply_transformations half_turn_env loaded_window))) d
             = square_image
         \<and> 1 \<le> d)
   \<and> original_data (perform_all half_turn_env [Rotate 180, FlipHorizontal] captured_window) = Some 1
   \<and> cells (heap (perform_all half_turn_env [Rotate 180, FlipHorizontal] captured_window)) 1
       = square_image"
proof -
  let ?xs = "[Rotate 180, FlipHorizontal]"
  note T = canonical_array_never_overwritten[OF loaded_window_facts(1), of half_turn_env ?xs]
  have 1: "canonical (perform_all half_turn_env ?xs loaded_window) = Some square_image"
    using T[THEN conjunct1] loaded_window_facts(2) by simp
  have n: "(0::nat) < next_ref (heap loaded_window)"
    by (simp add: loaded_window_def store_of_def)
  have 2: "cells (heap (perform_all half_turn_env ?xs loaded_window)) 0 = square_image"
    using T[THEN conjunct2, THEN conjunct2, THEN conjunct1, rule_format, OF n]
    by (simp add: loaded_window_def store_of_def)
  have h3: "canonical loaded_window = Some square_image
      \<and> current_data (image_engine loaded_window) \<noteq> None \<and> ?xs \<noteq> []"
    using loaded_window_facts by simp
  note 3 = T[THEN conjunct2, THEN conjunct2, THEN conjunct2, THEN conjunct1, rule_format, OF h3]
  have tr: "transform_array half_turn_env (rotation_angle loaded_window)
      (flip_horizontal loaded_window) (flip_vertical loaded_window) square_image = Inr square_image"
    by (simp add: transform_array_def rotate_block_def flip_block_def loaded_window_def)
  have h4: "canonical loaded_window = Some square_image
      \<and> current_data (image_engine loaded_window) \<noteq> None
      \<and> transform_array half_turn_env (rotation_angle loaded_window)
          (flip_horizontal loaded_window) (flip_vertical loaded_window) square_image
          = Inr square_image"
    using loaded_window_facts tr by simp
  from T[THEN conjunct2, THEN conjunct2, THEN conjunct2, THEN conjunct2, rule_format, OF h4]
  obtain d where d:
    "current_data (image_engine (state_of (apply_transformations half_turn_env loaded_window))) = Some d"
    "cells (heap (state_of (apply_transformations half_turn_env loaded_window))) d = square_image"
    "next_ref (heap loaded_window) \<le> d"
    by blast
  have "1 \<le> d" using d(3) by (simp add: loaded_window_def store_of_def)
  then have 4: "\<exists>d. current_data (image_engine (state_of (apply_transformations half_turn_env loaded_window)))
             = Some d
         \<and> cells (heap (state_of (apply_transformations half_turn_env loaded_window))) d
             = square_image
         \<and> 1 \<le> d"
    using d(1,2) by blast
  have ok: "store_ok captured_window"
    by (simp add: captured_window_def loaded_window_def store_ok_def hdu_refs_ok_def)
  have o: "original_data captured_window = Some 1" by (simp add: captured_window_def)
  have 5: "original_data (perform_all half_turn_env ?xs captured_window) = Some 1
      \<and> cells (heap (perform_all half_turn_env ?xs captured_window)) 1 = cells (heap captured_window) 1"
    using canonical_array_never_overwritten[OF ok, of half_turn_env ?xs,
            THEN conjunct2, THEN conjunct1, rule_format, OF o] .
  have 6: "cells (heap captured_window) 1 = square_image" by (simp add: captured_window_def)
  show ?thesis using 1 2 3 4 5 6 by simp
qed

subsection \<open>Absolute rotation\<close>

lemma rotate_image_angle:
  assumes "current_data (image_engine s) \<noteq> None"
  shows "rotation_angle (state_of (rotate_image ev a s)) = a mod 360"
  using assms apply_transformations_keeps[of ev "s\<lparr>rotation_angle := a mod 360\<rparr>"]
  by (auto simp: rotate_image_def)

lemma rotate_image_flips:
  "flip_horizontal (state_of (rotate_image ev a s)) = flip_horizontal s
   \<and> flip_vertical (state_of (rotate_image ev a s)) = flip_vertical s"
  using apply_transformations_keeps[of ev "s\<lparr>rotation_angle := a mod 360\<rparr>"]
  by (auto simp: rotate_image_def)

lemma perform_all_rotations:
  assumes "store_ok s" "current_data (image_engine s) \<noteq> None"
  shows "store_ok (perform_all ev (map Rotate angles) s)
    \<and> canonical (perform_all ev (map Rotate angles) s) = canonical s
    \<and> current_data (image_engine (perform_all ev (map Rotate angles) s)) \<noteq> None
    \<and> flip_horizontal (perform_all ev (map Rotate angles) s) = flip_horizontal s
    \<and> flip_vertical (perform_all ev (map Rotate angles) s) = flip_vertical s"
proof -
  have "flip_horizontal (perform_all ev (map Rotate angles) s) = flip_horizontal s
      \<and> flip_vertical (perform_all ev (map Rotate angles) s) = flip_vertical s"
    by (induction angles arbitrary: s) (simp_all add: rotate_image_flips)
  moreover have "current_data (image_engine (perform_all ev (map Rotate angles) s)) \<noteq> None"
    using perform_all_extends[of s ev "map Rotate angles"] assms(2) by (simp add: extends_def)
  ultimately show ?thesis using perform_all_store[OF assms(1)] by simp
qed

text \<open>
  C5.  \<open>rotate_image\<close> stores the requested angle modulo 360, whatever the angle was
  before.  After any sequence of rotations, with both flips off, a rotation by a multiple
  of 360 degrees (0 and 360 among them) displays a copy of the canonical array, so the
  displayed image is the reduction of the untransformed canonical array.
\<close>

theorem rotation_is_absolute:
  assumes "store_ok s" and "canonical s = Some c" and "current_data (image_engine s) \<noteq> None"
    and "\<not> flip_horizontal s" and "\<not> flip_vertical s" and "angle mod 360 = 0"
  shows "rotation_angle (state_of (rotate_image ev a s)) = a mod 360
    \<and> rotation_angle (state_of (rotate_image ev angle (perform_all ev (map Rotate angles) s))) = 0
    \<and> (\<exists>d. current_data (image_engine
               (state_of (rotate_image ev angle (perform_all ev (map Rotate angles) s)))) = Some d
          \<and> cells (heap (state_of (rotate_image ev angle (perform_all ev (map Rotate angles) s)))) d
              = c)
    \<and> prepare_data_for_display
          (heap (state_of (rotate_image ev angle (perform_all ev (map Rotate angles) s))))
          (image_engine (state_of (rotate_image ev angle (perform_all ev (map Rotate angles) s))))
        = reduce_for_display c"
proof -
  let ?s1 = "perform_all ev (map Rotate angles) s"
  let ?s0 = "?s1\<lparr>rotation_angle := angle mod 360\<rparr>"
  let ?s2 = "state_of (rotate_image ev angle ?s1)"
  note p = perform_all_rotations[OF assms(1,3), of ev angles]
  have cur: "current_data (image_engine ?s0) \<noteq> None" using p by simp
  have can: "canonical ?s0 = Some c" using p assms(2) by simp
  have ok: "store_ok ?s0" using p by simp
  have tr: "transform_array ev (rotation_angle ?s0) (flip_horizontal ?s0) (flip_vertical ?s0) c = Inr c"
    using p assms(4,5,6) by (simp add: transform_array_def rotate_block_def flip_block_def)
  have s2: "?s2 = state_of (apply_transformations ev ?s0)"
    using p by (auto simp: rotate_image_def)
  from apply_transformations_displays[OF ok cur can tr] obtain d where
    d: "current_data (image_engine ?s2) = Some d" "cells (heap ?s2) d = c"
    unfolding s2 by blast
  have 1: "rotation_angle (state_of (rotate_image ev a s)) = a mod 360"
    using assms(3) by (rule rotate_image_angle)
  have 2: "rotation_angle ?s2 = 0"
    using rotate_image_angle[of ?s1 ev angle] p assms(6) by simp
  have 4: "prepare_data_for_display (heap ?s2) (image_engine ?s2) = reduce_for_display c"
    using d by (simp add: prepare_data_for_display_def)
  show ?thesis using 1 2 d 4 by blast
qed

theorem rotation_is_absolute_witness:
  "rotation_angle (state_of (rotate_image half_turn_env 450 loaded_window)) = 90
   \<and> rotation_angle (state_of (rotate_image half_turn_env 360
        (perform_all half_turn_env (map Rotate [90, 180]) loaded_window))) = 0
   \<and> (\<exists>d. current_data (image_engine (state_of (rotate_image half_turn_env 360
               (perform_all half_turn_env (map Rotate [90, 180]) loaded_window)))) = Some d
         \<and> cells (heap (state_of (rotate_image half_turn_env 360
               (perform_all half_turn_env (map Rotate [90, 180]) loaded_window)))) d = square_image)
   \<and> prepare_data_for_display
        (heap (state_of (rotate_image half_turn_env 360
               (perform_all half_turn_env (map Rotate [90, 180]) loaded_window))))
        (image_engine (state_of (rotate_image half_turn_env 360
               (perform_all half_turn_env (map Rotate [90, 180]) loaded_window))))
       = Inr (Some square_image)
   \<and> (\<exists>d. current_data (image_engine (state_of (rotate_image half_turn_env 0
               (perform_all half_turn_env (map Rotate [90, 180]) loaded_window)))) = Some d
         \<and> cells (heap (state_of (rotate_image half_turn_env 0
               (perform_all half_turn_env (map Rotate [90, 180]) loaded_window)))) d = square_image)"
proof -
  have f: "\<not> flip_horizontal loaded_window" "\<not> flip_vertical loaded_window"
    using loaded_window_facts(6,7) by simp_all
  have m: "(360::int) mod 360 = 0" "(0::int) mod 360 = 0" by simp_all
  note T360 = rotation_is_absolute[OF loaded_window_facts(1,2,3) f m(1),
      of half_turn_env 450 "[90, 180]"]
  note T0 = rotation_is_absolute[OF loaded_window_facts(1,2,3) f m(2),
      of half_turn_env 450 "[90, 180]"]
  have r: "reduce_for_display square_image = Inr (Some square_image)"
    by (simp add: reduce_for_display_def square_image_def ndim_def)
  have 1: "rotation_angle (state_of (rotate_image half_turn_env 450 loaded_window)) = 90"
    using T360[THEN conjunct1] by simp
  show ?thesis
    using 1 T360[THEN conjunct2, THEN conjunct1] T360[THEN conjunct2, THEN conjunct2, THEN conjunct1]
      T360[THEN conjunct2, THEN conjunct2, THEN conjunct2] r
      T0[THEN conjunct2, THEN conjunct2, THEN conjunct1]
    by simp
qed

subsection \<open>Element type after a rotation\<close>

lemma iinfo_min_le_0: "iinfo_min dt \<le> 0"
  by (simp add: iinfo_min_def)

lemma iinfo_max_ge_0: "0 \<le> iinfo_max dt"
  by (simp add: iinfo_max_def)

lemma wrap_int_range:
  "iinfo_min dt \<le> wrap_int dt i \<and> wrap_int dt i \<le> iinfo_max dt"
proof (cases "is_signed dt")
  case True
  have b: "0 < dbits dt" by (cases dt) simp_all
  then have p: "(2::int) ^ dbits dt = 2 * 2 ^ (dbits dt - 1)"
    by (cases "dbits dt") simp_all
  have "0 \<le> (i + 2 ^ (dbits dt - 1)) mod 2 ^ dbits dt"
    "(i + 2 ^ (dbits dt - 1)) mod 2 ^ dbits dt < 2 ^ dbits dt"
    by simp_all
  then show ?thesis using True p by (simp add: wrap_int_def iinfo_min_def iinfo_max_def)
next
  case False
  have "0 \<le> i mod 2 ^ dbits dt" "i mod 2 ^ dbits dt < 2 ^ dbits dt" by simp_all
  then show ?thesis using False by (simp add: wrap_int_def iinfo_min_def iinfo_max_def)
qed

lemma in_dtype_of_int:
  "iinfo_min dt \<le> k \<Longrightarrow> k \<le> iinfo_max dt \<Longrightarrow> in_dtype dt (Finite (real_of_int k))"
  by (simp add: in_dtype_def)

lemma astype_val_in_dtype: "in_dtype dt (astype_val ev dt s)"
proof (cases "is_integer dt")
  case True
  show ?thesis
    using True wrap_int_range[of dt "undef_cast ev dt s"]
    by (auto simp: astype_val_def intro!: in_dtype_of_int split: sample.splits)
next
  case False
  then show ?thesis by (simp add: in_dtype_def)
qed

lemma well_typed_astype: "well_typed (astype ev dt a)"
  by (simp add: well_typed_def astype_def list_all_iff astype_val_in_dtype)

lemma dtype_preserve_dtype: "dtype (preserve_dtype ev dt a) = dt"
  by (simp add: preserve_dtype_def astype_def)

lemma well_typed_preserve_dtype:
  "well_typed a \<Longrightarrow> well_typed (preserve_dtype ev dt a)"
  by (simp add: preserve_dtype_def well_typed_astype)

lemma in_dtype_promote_left: "in_dtype a s \<Longrightarrow> in_dtype (promote a b) s"
  by (cases a; cases b; cases s)
     (simp_all add: in_dtype_def promote_def iinfo_min_def iinfo_max_def Let_def)

lemma in_dtype_promote_right: "in_dtype b s \<Longrightarrow> in_dtype (promote a b) s"
  by (cases a; cases b; cases s)
     (simp_all add: in_dtype_def promote_def iinfo_min_def iinfo_max_def Let_def)

lemma well_typed_np_array3:
  assumes "np_array3 r0 r1 r2 = Inr t" "well_typed r0" "well_typed r1" "well_typed r2"
  shows "well_typed t"
proof -
  let ?d = "promote (promote (dtype r0) (dtype r1)) (dtype r2)"
  have t: "dtype t = ?d" "elems t = elems r0 @ elems r1 @ elems r2"
    using assms(1) by (auto simp: np_array3_def split: if_splits)
  have "in_dtype ?d s" if "s \<in> set (elems r0)" for s
    using that assms(2) by (auto simp: well_typed_def list_all_iff intro!: in_dtype_promote_left)
  moreover have "in_dtype ?d s" if "s \<in> set (elems r1)" for s
  proof -
    have "in_dtype (dtype r1) s" using that assms(3) by (simp add: well_typed_def list_all_iff)
    then have "in_dtype (promote (dtype r0) (dtype r1)) s" by (rule in_dtype_promote_right)
    then show ?thesis by (rule in_dtype_promote_left)
  qed
  moreover have "in_dtype ?d s" if "s \<in> set (elems r2)" for s
    using that assms(4) by (auto simp: well_typed_def list_all_iff intro!: in_dtype_promote_right)
  ultimately show ?thesis using t by (auto simp: well_typed_def list_all_iff)
qed

lemma case_sum_Inr_E:
  assumes "(case x of Inl e \<Rightarrow> Inl e | Inr v \<Rightarrow> f v) = Inr t"
  obtains v where "x = Inr v" "f v = Inr t"
  using assms by (cases x) auto

lemma rotate_data_well_typed:
  assumes "\<forall>a k t. nd_rotate ev a k = Inr t \<longrightarrow> well_typed t" "rotate_data ev angle data = Inr t"
  shows "well_typed t"
proof (cases "ndim data = 3 \<and> shape data ! 0 = 3")
  case True
  have "(case index_axis0 data 0 of Inl e \<Rightarrow> Inl e | Inr c0 \<Rightarrow>
        (case nd_rotate ev c0 angle of Inl e \<Rightarrow> Inl e | Inr r0 \<Rightarrow>
        (case index_axis0 data 1 of Inl e \<Rightarrow> Inl e | Inr c1 \<Rightarrow>
        (case nd_rotate ev c1 angle of Inl e \<Rightarrow> Inl e | Inr r1 \<Rightarrow>
        (case index_axis0 data 2 of Inl e \<Rightarrow> Inl e | Inr c2 \<Rightarrow>
        (case nd_rotate ev c2 angle of Inl e \<Rightarrow> Inl e | Inr r2 \<Rightarrow>
           np_array3 r0 r1 r2)))))) = Inr t"
    using assms(2) True by (simp add: rotate_data_def)
  then obtain c0 r0 c1 r1 c2 r2 where
    r: "nd_rotate ev c0 angle = Inr r0" "nd_rotate ev c1 angle = Inr r1"
       "nd_rotate ev c2 angle = Inr r2" "np_array3 r0 r1 r2 = Inr t"
    by (elim case_sum_Inr_E) blast
  have "well_typed r0" "well_typed r1" "well_typed r2" using assms(1) r(1,2,3) by blast+
  then show ?thesis by (rule well_typed_np_array3[OF r(4)])
next
  case False
  then have "nd_rotate ev data angle = Inr t" using assms(2) by (auto simp: rotate_data_def)
  then show ?thesis using assms(1) by blast
qed

lemma rotate_block_typed:
  assumes "\<forall>a k t. nd_rotate ev a k = Inr t \<longrightarrow> well_typed t" "well_typed data"
    and "rotate_block ev angle data = Inr t"
  shows "dtype t = dtype data \<and> well_typed t"
proof (cases "angle = 0")
  case True
  then show ?thesis using assms by (simp add: rotate_block_def)
next
  case False
  then obtain rotated where r: "rotate_data ev angle data = Inr rotated"
    "t = preserve_dtype ev (dtype data) rotated"
    using assms(3) by (auto simp: rotate_block_def split: sum.splits)
  have "well_typed rotated" using assms(1) r(1) by (rule rotate_data_well_typed)
  then show ?thesis using r(2) by (simp add: dtype_preserve_dtype well_typed_preserve_dtype)
qed

lemma set_chunks: "c \<in> set (chunks n xs) \<Longrightarrow> set c \<subseteq> set xs"
proof (induction n xs rule: chunks.induct)
  case (1 n xs)
  show ?case
  proof (cases "n = 0 \<or> xs = []")
    case True
    then show ?thesis using "1.prems" by (simp add: chunks.simps)
  next
    case False
    then have "c = take n xs \<or> c \<in> set (chunks n (drop n xs))"
      using "1.prems" by (subst (asm) chunks.simps) auto
    then show ?thesis
    proof
      assume "c = take n xs"
      then show ?thesis by (auto dest: in_set_takeD)
    next
      assume "c \<in> set (chunks n (drop n xs))"
      then have "set c \<subseteq> set (drop n xs)" using "1.IH" False by blast
      then show ?thesis by (auto dest: in_set_dropD)
    qed
  qed
qed

lemma np_flip_last_typed:
  assumes "np_flip_last a = Inr t" "well_typed a"
  shows "dtype t = dtype a \<and> well_typed t"
proof -
  have t: "dtype t = dtype a" "elems t = concat (map rev (chunks (last (shape a)) (elems a)))"
    using assms(1) by (auto simp: np_flip_last_def split: if_splits)
  have "set (elems t) \<subseteq> set (elems a)" unfolding t(2) using set_chunks by fastforce
  then show ?thesis using t(1) assms(2) by (auto simp: well_typed_def list_all_iff)
qed

lemma np_flip_second_last_typed:
  assumes "np_flip_second_last a = Inr t" "well_typed a"
  shows "dtype t = dtype a \<and> well_typed t"
proof -
  let ?w = "last (shape a)"
  let ?hh = "shape a ! (ndim a - 2)"
  have t: "dtype t = dtype a"
    "elems t = concat (map (\<lambda>blk. concat (rev (chunks ?w blk))) (chunks (?hh * ?w) (elems a)))"
    using assms(1) by (auto simp: np_flip_second_last_def Let_def split: if_splits)
  have "set (concat (rev (chunks ?w blk))) \<subseteq> set (elems a)"
    if "blk \<in> set (chunks (?hh * ?w) (elems a))" for blk
    using set_chunks[OF that] set_chunks[of _ ?w blk] by fastforce
  then have "set (elems t) \<subseteq> set (elems a)" unfolding t(2) by auto
  then show ?thesis using t(1) assms(2) by (auto simp: well_typed_def list_all_iff)
qed

lemma flip_block_typed:
  assumes "flip_block fh fv a = Inr t" "well_typed a"
  shows "dtype t = dtype a \<and> well_typed t"
proof -
  obtain d1 where d1: "(if fh then np_flip_last a else Inr a) = Inr d1"
    "(if fv then np_flip_second_last d1 else Inr d1) = Inr t"
    using assms(1) by (auto simp: flip_block_def split: sum.splits)
  have 1: "dtype d1 = dtype a \<and> well_typed d1"
    using d1(1) assms(2) np_flip_last_typed[of a d1] by (cases fh) auto
  have "dtype t = dtype d1 \<and> well_typed t"
    using d1(2) 1 np_flip_second_last_typed[of d1 t] by (cases fv) auto
  then show ?thesis using 1 by simp
qed

lemma transform_array_typed:
  assumes "\<forall>a k t. nd_rotate ev a k = Inr t \<longrightarrow> well_typed t" "well_typed c"
    and "transform_array ev angle fh fv c = Inr t"
  shows "dtype t = dtype c \<and> well_typed t"
proof -
  obtain rt where rt: "rotate_block ev angle c = Inr rt" "flip_block fh fv rt = Inr t"
    using assms(3) by (auto simp: transform_array_def split: sum.splits)
  have "dtype rt = dtype c \<and> well_typed rt" using assms(1,2) rt(1) by (rule rotate_block_typed)
  then show ?thesis using flip_block_typed[OF rt(2)] by simp
qed

lemma py_trunc_between:
  assumes "real_of_int lo \<le> x" "x \<le> real_of_int hi" "lo \<le> 0" "0 \<le> hi"
  shows "lo \<le> py_trunc x \<and> py_trunc x \<le> hi"
proof (cases "0 \<le> x")
  case True
  then have "0 \<le> \<lfloor>x\<rfloor>" by simp
  moreover have "\<lfloor>x\<rfloor> \<le> hi" using assms(2) by (simp add: floor_le_iff)
  ultimately have "lo \<le> \<lfloor>x\<rfloor> \<and> \<lfloor>x\<rfloor> \<le> hi" using assms(3) by linarith
  then show ?thesis using True by (simp add: py_trunc_def)
next
  case False
  then have "\<lceil>x\<rceil> \<le> 0" by (simp add: ceiling_le_iff)
  moreover have "lo \<le> \<lceil>x\<rceil>" using assms(1) by linarith
  ultimately have "lo \<le> \<lceil>x\<rceil> \<and> \<lceil>x\<rceil> \<le> hi" using assms(4) by linarith
  then show ?thesis using False by (simp add: py_trunc_def)
qed

lemma cast_of_clipped:
  assumes "is_integer dt"
  shows "astype_val ev dt (clip_hi (Some (real_of_int (iinfo_max dt)))
                            (clip_lo (Some (real_of_int (iinfo_min dt))) (Finite v)))
         = Finite (real_of_int (py_trunc (min (max v (real_of_int (iinfo_min dt)))
                                              (real_of_int (iinfo_max dt)))))"
proof -
  let ?m = "min (max v (real_of_int (iinfo_min dt))) (real_of_int (iinfo_max dt))"
  have le: "real_of_int (iinfo_min dt) \<le> real_of_int (iinfo_max dt)"
    using iinfo_min_le_0[of dt] iinfo_max_ge_0[of dt] by linarith
  have "real_of_int (iinfo_min dt) \<le> ?m" "?m \<le> real_of_int (iinfo_max dt)"
    using le by (simp_all add: min_def max_def)
  then have "iinfo_min dt \<le> py_trunc ?m \<and> py_trunc ?m \<le> iinfo_max dt"
    using iinfo_min_le_0 iinfo_max_ge_0 by (intro py_trunc_between)
  then show ?thesis using assms by (simp add: astype_val_def)
qed

text \<open>
  C6.  For a canonical array of an integer type, the array displayed after a rotation has
  that same type and every element of it is an integer within the range of the type.
  Where the rotation returns another type, each element is first clipped to the range
  and then converted, so that a finite value becomes the truncation of the clipped value
  and the conversion never leaves the range.  (The library's rotation is taken to return
  arrays whose elements fit their own type.)
\<close>

theorem rotation_keeps_integer_dtype:
  assumes "store_ok s" and "canonical s = Some c" and "current_data (image_engine s) \<noteq> None"
    and "is_integer (dtype c)" and "well_typed c"
    and "\<forall>a k t. nd_rotate ev a k = Inr t \<longrightarrow> well_typed t"
    and "transform_array ev (angle mod 360) (flip_horizontal s) (flip_vertical s) c = Inr t"
  shows "(\<exists>d. current_data (image_engine (state_of (rotate_image ev angle s))) = Some d
            \<and> cells (heap (state_of (rotate_image ev angle s))) d = t)
    \<and> dtype t = dtype c
    \<and> (\<forall>x\<in>set (elems t). \<exists>i. x = Finite (real_of_int i)
            \<and> iinfo_min (dtype c) \<le> i \<and> i \<le> iinfo_max (dtype c))
    \<and> (\<forall>rotated. dtype rotated \<noteq> dtype c \<longrightarrow>
          elems (preserve_dtype ev (dtype c) rotated)
            = map (\<lambda>x. astype_val ev (dtype c)
                         (clip_hi (Some (real_of_int (iinfo_max (dtype c))))
                            (clip_lo (Some (real_of_int (iinfo_min (dtype c)))) x)))
                (elems rotated))
    \<and> (\<forall>v. astype_val ev (dtype c)
               (clip_hi (Some (real_of_int (iinfo_max (dtype c))))
                  (clip_lo (Some (real_of_int (iinfo_min (dtype c)))) (Finite v)))
             = Finite (real_of_int (py_trunc (min (max v (real_of_int (iinfo_min (dtype c))))
                                                  (real_of_int (iinfo_max (dtype c)))))))"
proof (intro conjI allI impI ballI)
  let ?s0 = "s\<lparr>rotation_angle := angle mod 360\<rparr>"
  have r: "rotate_image ev angle s = apply_transformations ev ?s0"
    using assms(3) by (auto simp: rotate_image_def)
  have tr: "transform_array ev (rotation_angle ?s0) (flip_horizontal ?s0) (flip_vertical ?s0) c = Inr t"
    using assms(7) by simp
  have "\<exists>d. current_data (image_engine (state_of (apply_transformations ev ?s0))) = Some d
           \<and> cells (heap (state_of (apply_transformations ev ?s0))) d = t"
    using apply_transformations_displays[of ?s0 c ev t] assms(1,2,3) tr by auto
  then show "\<exists>d. current_data (image_engine (state_of (rotate_image ev angle s))) = Some d
            \<and> cells (heap (state_of (rotate_image ev angle s))) d = t"
    unfolding r .
next
  note ty = transform_array_typed[OF assms(6,5,7)]
  show "dtype t = dtype c" using ty by simp
  fix x assume x: "x \<in> set (elems t)"
  have "in_dtype (dtype c) x" using ty x by (auto simp: well_typed_def list_all_iff)
  then obtain v where v: "x = Finite v" "v = real_of_int \<lfloor>v\<rfloor>"
    "iinfo_min (dtype c) \<le> \<lfloor>v\<rfloor>" "\<lfloor>v\<rfloor> \<le> iinfo_max (dtype c)"
    using assms(4) by (auto simp: in_dtype_def split: sample.splits)
  then show "\<exists>i. x = Finite (real_of_int i) \<and> iinfo_min (dtype c) \<le> i \<and> i \<le> iinfo_max (dtype c)"
    by (intro exI[of _ "\<lfloor>v\<rfloor>"]) simp
next
  fix rotated :: "sample ndarray" assume "dtype rotated \<noteq> dtype c"
  then show "elems (preserve_dtype ev (dtype c) rotated)
            = map (\<lambda>x. astype_val ev (dtype c)
                         (clip_hi (Some (real_of_int (iinfo_max (dtype c))))
                            (clip_lo (Some (real_of_int (iinfo_min (dtype c)))) x)))
                (elems rotated)"
    using assms(4) by (simp add: preserve_dtype_def astype_def)
next
  fix v
  show "astype_val ev (dtype c)
               (clip_hi (Some (real_of_int (iinfo_max (dtype c))))
                  (clip_lo (Some (real_of_int (iinfo_min (dtype c)))) (Finite v)))
             = Finite (real_of_int (py_trunc (min (max v (real_of_int (iinfo_min (dtype c))))
                                                  (real_of_int (iinfo_max (dtype c))))))"
    using assms(4) by (rule cast_of_clipped)
qed


theorem rotation_keeps_integer_dtype_witness:
  "(\<exists>d. current_data (image_engine (state_of (rotate_image half_turn_env 180 loaded_window)))
            = Some d
        \<and> cells (heap (state_of (rotate_image half_turn_env 180 loaded_window))) d
            = \<lparr>dtype = Int16, shape = [2, 2],
               elems = [Finite 32767, Finite 32767, Finite 32767, Finite 32766]\<rparr>)
   \<and> (\<exists>i. Finite 32766 = Finite (real_of_int i) \<and> iinfo_min Int16 \<le> i \<and> i \<le> iinfo_max Int16)
   \<and> astype_val half_turn_env Int16
        (clip_hi (Some (real_of_int (iinfo_max Int16)))
           (clip_lo (Some (real_of_int (iinfo_min Int16))) (Finite (400007 / 10))))
      = Finite 32767
   \<and> astype_val half_turn_env Int16
        (clip_hi (Some (real_of_int (iinfo_max Int16)))
           (clip_lo (Some (real_of_int (iinfo_min Int16))) (Finite (- 5 / 2))))
      = Finite (- 2)"
proof -
  let ?t = "\<lparr>dtype = Int16, shape = [2, 2],
             elems = [Finite 32767, Finite 32767, Finite 32767, Finite 32766]\<rparr>"
  have i: "is_integer (dtype square_image)" by (simp add: square_image_def)
  have w: "well_typed square_image"
    by (simp add: well_typed_def in_dtype_def iinfo_min_def iinfo_max_def square_image_def)
  have rot: "\<forall>a k t. nd_rotate half_turn_env a k = Inr t \<longrightarrow> well_typed t"
    by (auto simp: half_turn_env_def well_typed_def in_dtype_def list_all_iff)
  have tr: "transform_array half_turn_env (180 mod 360) (flip_horizontal loaded_window)
              (flip_vertical loaded_window) square_image = Inr ?t"
    using half_turn_of_square_image loaded_window_facts(6,7) by simp
  note T = rotation_keeps_integer_dtype[OF loaded_window_facts(1,2,3) i w rot tr]
  have d: "dtype square_image = Int16" by (simp add: square_image_def)
  have 1: "\<exists>d. current_data (image_engine (state_of (rotate_image half_turn_env 180 loaded_window)))
            = Some d
        \<and> cells (heap (state_of (rotate_image half_turn_env 180 loaded_window))) d = ?t"
    using T[THEN conjunct1] .
  have m: "Finite 32766 \<in> set (elems ?t)" by simp
  have 2: "\<exists>i. Finite 32766 = Finite (real_of_int i) \<and> iinfo_min Int16 \<le> i \<and> i \<le> iinfo_max Int16"
    using T[THEN conjunct2, THEN conjunct2, THEN conjunct1, rule_format, OF m] unfolding d .
  note C = T[THEN conjunct2, THEN conjunct2, THEN conjunct2, THEN conjunct2, rule_format,
      unfolded d]
  have 3: "astype_val half_turn_env Int16
        (clip_hi (Some (real_of_int (iinfo_max Int16)))
           (clip_lo (Some (real_of_int (iinfo_min Int16))) (Finite (400007 / 10))))
      = Finite 32767"
    unfolding C[of "400007 / 10"] by (simp add: iinfo_min_def iinfo_max_def py_trunc_def)
  have 4: "astype_val half_turn_env Int16
        (clip_hi (Some (real_of_int (iinfo_max Int16)))
           (clip_lo (Some (real_of_int (iinfo_min Int16))) (Finite (- 5 / 2))))
      = Finite (- 2)"
    unfolding C[of "- 5 / 2"] by (simp add: iinfo_min_def iinfo_max_def py_trunc_def)
  show ?thesis using 1 2 3 4 by (intro conjI)
qed

section \<open>Properties of the file manager\<close>

text \<open>
  C10.  The accessors are total outside the valid index range: when no file is open, or
  the index is negative or not below the number of HDUs, \<open>get_data\<close> returns
  \<open>None\<close>, \<open>get_hdu_info\<close> returns the empty dictionary and \<open>get_header\<close>
  returns the empty string; none of the three raises.
\<close>

theorem accessors_total_out_of_range:
  assumes "hdulist fm = None \<or> i < 0 \<or> i \<ge> num_hdus fm"
  shows "get_data fm i = Inr None \<and> get_hdu_info h fm i = Inr [] \<and> get_header fm i = Inr ''''"
  using assms
  by (auto simp: get_data_def get_hdu_info_def get_header_def split: option.splits)

theorem accessors_total_out_of_range_witness:
  "get_data \<lparr>hdulist = Some [\<lparr>hdu_type = ''PrimaryHDU'', hdu_data = Some 0,
                                header_cards = [], header_str = ''SIMPLE  =  T''\<rparr>],
             filepath = Some ''a.fits'', num_hdus = 1\<rparr> 1 = Inr None
   \<and> get_hdu_info \<lparr>cells = (\<lambda>_. \<lparr>dtype = Float64, shape = [0], elems = []\<rparr>), next_ref = 1\<rparr>
        \<lparr>hdulist = Some [\<lparr>hdu_type = ''PrimaryHDU'', hdu_data = Some 0,
                                header_cards = [], header_str = ''SIMPLE  =  T''\<rparr>],
             filepath = Some ''a.fits'', num_hdus = 1\<rparr> 1 = Inr []
   \<and> get_header \<lparr>hdulist = Some [\<lparr>hdu_type = ''PrimaryHDU'', hdu_data = Some 0,
                                header_cards = [], header_str = ''SIMPLE  =  T''\<rparr>],
             filepath = Some ''a.fits'', num_hdus = 1\<rparr> 1 = Inr ''''"
  using accessors_total_out_of_range
    [of "\<lparr>hdulist = Some [\<lparr>hdu_type = ''PrimaryHDU'', hdu_data = Some 0,
                                header_cards = [], header_str = ''SIMPLE  =  T''\<rparr>],
             filepath = Some ''a.fits'', num_hdus = 1\<rparr>" 1
        "\<lparr>cells = (\<lambda>_. \<lparr>dtype = Float64, shape = [0], elems = []\<rparr>), next_ref = 1\<rparr>"]
  by simp

end
